theory Spec2Isabelle
  imports Main "HOL-Library.Word"
begin

section \<open>Twitch chat logging notebook: strings, files and exceptions\<close>

text \<open>
  The notebook has two pieces of code with behaviour of their own: the receive loop that
  answers \<open>PING\<close> and logs every other chunk, and \<open>get_chat_dataframe\<close>, which reads
  the log back and turns every record into a row.  Both are embedded here together with
  the library calls they make (\<open>bytes.decode\<close>, \<open>str.split\<close>, \<open>str.strip\<close>,
  \<open>str.join\<close>, \<open>datetime.strptime\<close>, \<open>re.search\<close>), following CPython 3.6, the
  kernel recorded in the notebook's metadata.
\<close>

subsection \<open>Python values\<close>

text \<open>
  A Python \<open>str\<close> is a sequence of Unicode code points, a \<open>bytes\<close> object a sequence
  of octets.  The em dash of the log format is the single code point U+2014.
\<close>

type_synonym uchar = nat
type_synonym ustr = "uchar list"
type_synonym byte = "8 word"

definition ascii :: "string \<Rightarrow> ustr" where
  "ascii cs = map of_char cs"

definition ascii_bytes :: "string \<Rightarrow> byte list" where
  "ascii_bytes cs = map of_char cs"

definition ch :: "char \<Rightarrow> uchar" where
  "ch c = of_char c"

definition emdash :: uchar where
  "emdash = 8212"

definition newline :: uchar where
  "newline = 10"

text \<open>
  The exceptions that the embedded code can raise.  \<open>KeyboardInterrupt\<close> derives from
  \<open>BaseException\<close> only, so \<open>except Exception\<close> does not catch it.
\<close>

datatype py_error =
    ValueError | TypeError | IndexError | AttributeError | UnicodeDecodeError | OSError
  | KeyboardInterrupt

fun is_Exception :: "py_error \<Rightarrow> bool" where
  "is_Exception KeyboardInterrupt = False"
| "is_Exception _ = True"

definition bind_err :: "'e + 'a \<Rightarrow> ('a \<Rightarrow> 'e + 'b) \<Rightarrow> 'e + 'b" where
  "bind_err m f = (case m of Inl e \<Rightarrow> Inl e | Inr x \<Rightarrow> f x)"

subsection \<open>\<open>bytes.decode('utf-8')\<close> and reading a text file\<close>

text \<open>
  Strict UTF-8: a lead byte fixes the number of continuation bytes and the range of the
  first of them (no overlong forms, no surrogates, nothing above U+10FFFF); any other
  byte sequence raises \<open>UnicodeDecodeError\<close>.
\<close>

definition in_range :: "nat \<Rightarrow> nat \<Rightarrow> byte \<Rightarrow> bool" where
  "in_range lo hi b = (lo \<le> unat b \<and> unat b \<le> hi)"

definition is_cont :: "byte \<Rightarrow> bool" where
  "is_cont b = in_range 128 191 b"

definition cont_bits :: "byte \<Rightarrow> nat" where
  "cont_bits b = unat b - 128"

definition cons_char :: "uchar \<Rightarrow> py_error + ustr \<Rightarrow> py_error + ustr" where
  "cons_char c r = (case r of Inl e \<Rightarrow> Inl e | Inr cs \<Rightarrow> Inr (c # cs))"

fun utf8_decode :: "byte list \<Rightarrow> py_error + ustr" where
  "utf8_decode [] = Inr []"
| "utf8_decode (b # bs) =
     (if unat b < 128 then cons_char (unat b) (utf8_decode bs)
      else if in_range 194 223 b then
        (case bs of
           b1 # r \<Rightarrow>
             if is_cont b1
             then cons_char ((unat b - 192) * 64 + cont_bits b1) (utf8_decode r)
             else Inl UnicodeDecodeError
         | _ \<Rightarrow> Inl UnicodeDecodeError)
      else if in_range 224 239 b then
        (case bs of
           b1 # b2 # r \<Rightarrow>
             if in_range (if unat b = 224 then 160 else 128)
                         (if unat b = 237 then 159 else 191) b1 \<and> is_cont b2
             then cons_char ((unat b - 224) * 4096 + cont_bits b1 * 64 + cont_bits b2)
                            (utf8_decode r)
             else Inl UnicodeDecodeError
         | _ \<Rightarrow> Inl UnicodeDecodeError)
      else if in_range 240 244 b then
        (case bs of
           b1 # b2 # b3 # r \<Rightarrow>
             if in_range (if unat b = 240 then 144 else 128)
                         (if unat b = 244 then 143 else 191) b1
                \<and> is_cont b2 \<and> is_cont b3
             then cons_char ((unat b - 240) * 262144 + cont_bits b1 * 4096
                               + cont_bits b2 * 64 + cont_bits b3)
                            (utf8_decode r)
             else Inl UnicodeDecodeError
         | _ \<Rightarrow> Inl UnicodeDecodeError)
      else Inl UnicodeDecodeError)"

text \<open>
  \<open>open(file, 'r', encoding='utf-8')\<close> opens in text mode with universal newlines:
  \<open>f.read()\<close> decodes the whole file and turns \<open>\r\n\<close> and a lone \<open>\r\<close> into
  \<open>\n\<close>.  A file is represented by its bytes.
\<close>

fun universal_newlines :: "ustr \<Rightarrow> ustr" where
  "universal_newlines [] = []"
| "universal_newlines [c] = (if c = 13 then [10] else [c])"
| "universal_newlines (c # d # cs) =
     (if c = 13 \<and> d = 10 then 10 # universal_newlines cs
      else if c = 13 then 10 # universal_newlines (d # cs)
      else c # universal_newlines (d # cs))"

definition read_text :: "byte list \<Rightarrow> py_error + ustr" where
  "read_text file =
     (case utf8_decode file of Inl e \<Rightarrow> Inl e | Inr s \<Rightarrow> Inr (universal_newlines s))"

subsection \<open>\<open>str\<close> methods\<close>

definition startswith :: "ustr \<Rightarrow> ustr \<Rightarrow> bool" where
  "startswith s p = (take (length p) s = p)"

text \<open>
  \<open>s.split(sep)\<close> cuts at the non-overlapping occurrences of \<open>sep\<close> found from the left
  and raises \<open>ValueError\<close> for an empty separator.  \<open>split_from\<close> carries the piece
  collected so far.
\<close>

function split_from :: "ustr \<Rightarrow> ustr \<Rightarrow> ustr \<Rightarrow> ustr list" where
  "split_from sep cur [] = [cur]"
| "split_from sep cur (x # xs) =
     (if sep \<noteq> [] \<and> startswith (x # xs) sep
      then cur # split_from sep [] (drop (length sep) (x # xs))
      else split_from sep (cur @ [x]) xs)"
  by pat_completeness auto
termination
  by (relation "measure (\<lambda>(sep, cur, s). length s)") auto

definition split :: "ustr \<Rightarrow> ustr \<Rightarrow> py_error + ustr list" where
  "split s sep = (if sep = [] then Inl ValueError else Inr (split_from sep [] s))"

text \<open>
  \<open>str.strip()\<close> without argument removes the characters for which \<open>str.isspace\<close>
  holds from both ends.
\<close>

definition isspace :: "uchar \<Rightarrow> bool" where
  "isspace c =
     ((9 \<le> c \<and> c \<le> 13) \<or> (28 \<le> c \<and> c \<le> 32) \<or> c = 133 \<or> c = 160 \<or> c = 5760
      \<or> (8192 \<le> c \<and> c \<le> 8202) \<or> c = 8232 \<or> c = 8233 \<or> c = 8239 \<or> c = 8287
      \<or> c = 12288)"

definition strip :: "ustr \<Rightarrow> ustr" where
  "strip s = rev (dropWhile isspace (rev (dropWhile isspace s)))"

fun join :: "ustr \<Rightarrow> ustr list \<Rightarrow> ustr" where
  "join sep [] = []"
| "join sep [x] = x"
| "join sep (x # y # ys) = x @ sep @ join sep (y # ys)"

text \<open>Indexing a list raises \<open>IndexError\<close> out of range; the slice \<open>[1:]\<close> never raises.\<close>

definition index :: "'a list \<Rightarrow> nat \<Rightarrow> py_error + 'a" where
  "index xs i = (if i < length xs then Inr (xs ! i) else Inl IndexError)"

definition slice_from :: "'a list \<Rightarrow> nat \<Rightarrow> 'a list" where
  "slice_from xs i = drop i xs"

subsection \<open>The \<open>re\<close> module: a backtracking matcher\<close>

text \<open>
  The part of the pattern language that the program uses.  Groups are numbered; the named
  groups that \<open>strptime\<close> builds are numbered in the order of their opening parenthesis.
\<close>

datatype regex =
    Eps
  | Lit uchar
  | Dot
  | Digit
  | Range uchar uchar
  | Seq regex regex
  | Alt regex regex
  | Star regex
  | Grp nat regex

text \<open>
  \<open>\d\<close> on a \<open>str\<close> pattern accepts every character of category Nd.  In Unicode 9.0,
  the database of CPython 3.6, these are 58 runs of ten characters with the values 0 to 9;
  the table lists the zero of each run.
\<close>

definition decimal_zeros :: "uchar list" where
  "decimal_zeros =
     [48, 1632, 1776, 1984, 2406, 2534, 2662, 2790, 2918, 3046, 3174, 3302, 3430, 3558,
      3664, 3792, 3872, 4160, 4240, 6112, 6160, 6470, 6608, 6784, 6800, 6992, 7088, 7232,
      7248, 42528, 43216, 43264, 43472, 43504, 43600, 44016, 65296, 66720, 69734, 69872,
      69942, 70096, 70384, 70736, 70864, 71248, 71360, 71472, 71904, 72784, 92768, 93008,
      120782, 120792, 120802, 120812, 120822, 125264]"

definition decimal_value :: "uchar \<Rightarrow> nat option" where
  "decimal_value c =
     (case find (\<lambda>z. z \<le> c \<and> c < z + 10) decimal_zeros of
        None \<Rightarrow> None
      | Some z \<Rightarrow> Some (c - z))"

definition isdecimal :: "uchar \<Rightarrow> bool" where
  "isdecimal c = (decimal_value c \<noteq> None)"

text \<open>
  A matcher state is the text still to be read and the groups captured so far.
  \<open>backtrack r st\<close> lists the states in which a match of \<open>r\<close> from \<open>st\<close> can end, in the
  order in which the backtracking engine tries them: the left alternative first, one more
  round of a star before stopping.  A round of a star that reads nothing is not repeated.
\<close>

type_synonym groups = "nat \<Rightarrow> ustr option"
type_synonym mstate = "ustr \<times> groups"

definition step_char :: "(uchar \<Rightarrow> bool) \<Rightarrow> mstate \<Rightarrow> mstate list" where
  "step_char p st =
     (case fst st of [] \<Rightarrow> [] | x # xs \<Rightarrow> if p x then [(xs, snd st)] else [])"

function backtrack :: "regex \<Rightarrow> mstate \<Rightarrow> mstate list" where
  "backtrack Eps st = [st]"
| "backtrack (Lit a) st = step_char (\<lambda>x. x = a) st"
| "backtrack Dot st = step_char (\<lambda>x. x \<noteq> newline) st"
| "backtrack Digit st = step_char isdecimal st"
| "backtrack (Range lo hi) st = step_char (\<lambda>x. lo \<le> x \<and> x \<le> hi) st"
| "backtrack (Seq r1 r2) st = concat (map (backtrack r2) (backtrack r1 st))"
| "backtrack (Alt r1 r2) st = backtrack r1 st @ backtrack r2 st"
| "backtrack (Star r) st =
     concat (map (\<lambda>st'. if length (fst st') < length (fst st)
                          then backtrack (Star r) st' else [])
                 (backtrack r st)) @ [st]"
| "backtrack (Grp n r) st =
     map (\<lambda>st'. (fst st',
                  (snd st')(n \<mapsto> take (length (fst st) - length (fst st')) (fst st))))
         (backtrack r st)"
  by pat_completeness auto
termination
  by (relation "measures [\<lambda>(r, st). size r, \<lambda>(r, st). length (fst st)]") auto

text \<open>
  \<open>re.match\<close> takes the first way to match at the start of the string; \<open>re.search\<close>
  tries the start positions from left to right and takes the first way to match at the
  first position that has one.  Both return \<open>None\<close> when there is none.
\<close>

definition match :: "regex \<Rightarrow> ustr \<Rightarrow> mstate option" where
  "match r s = (case backtrack r (s, Map.empty) of [] \<Rightarrow> None | st # _ \<Rightarrow> Some st)"

fun search :: "regex \<Rightarrow> ustr \<Rightarrow> mstate option" where
  "search r [] = match r []"
| "search r (x # xs) =
     (case match r (x # xs) of None \<Rightarrow> search r xs | Some st \<Rightarrow> Some st)"

fun seqs :: "regex list \<Rightarrow> regex" where
  "seqs [] = Eps"
| "seqs [r] = r"
| "seqs (r # rs) = Seq r (seqs rs)"

fun alts :: "regex \<Rightarrow> regex list \<Rightarrow> regex" where
  "alts r [] = r"
| "alts r (q # qs) = Alt r (alts q qs)"

definition lits :: "string \<Rightarrow> regex" where
  "lits cs = seqs (map Lit (ascii cs))"

subsection \<open>\<open>datetime.strptime\<close> with the format of the log\<close>

text \<open>
  \<open>strptime\<close> turns the format \<open>%Y-%m-%d_%H:%M:%S\<close> into the pattern
  \<^verbatim>\<open>(?P<Y>\d\d\d\d)-(?P<m>1[0-2]|0[1-9]|[1-9])-(?P<d>3[0-1]|[1-2]\d|0[1-9]|[1-9]| [1-9])\<close>
  \<^verbatim>\<open>_(?P<H>2[0-3]|[0-1]\d|\d):(?P<M>[0-5]\d|\d):(?P<S>6[0-1]|[0-5]\d|\d)\<close>,
  matches it at the start of the text and raises \<open>ValueError\<close> when there is no match or
  when text is left over.  The pattern is compiled with \<open>IGNORECASE\<close>, which changes
  nothing here: it has no letters.  The six fields then go through \<open>int\<close> and the
  constructors of \<open>date\<close> and \<open>datetime\<close>, which raise \<open>ValueError\<close> for a field out of
  range.
\<close>

definition strptime_regex :: regex where
  "strptime_regex = seqs
     [Grp 1 (seqs [Digit, Digit, Digit, Digit]),
      Lit (ch CHR ''-''),
      Grp 2 (alts (Seq (Lit (ch CHR ''1'')) (Range (ch CHR ''0'') (ch CHR ''2'')))
                  [Seq (Lit (ch CHR ''0'')) (Range (ch CHR ''1'') (ch CHR ''9'')),
                   Range (ch CHR ''1'') (ch CHR ''9'')]),
      Lit (ch CHR ''-''),
      Grp 3 (alts (Seq (Lit (ch CHR ''3'')) (Range (ch CHR ''0'') (ch CHR ''1'')))
                  [Seq (Range (ch CHR ''1'') (ch CHR ''2'')) Digit,
                   Seq (Lit (ch CHR ''0'')) (Range (ch CHR ''1'') (ch CHR ''9'')),
                   Range (ch CHR ''1'') (ch CHR ''9''),
                   Seq (Lit (ch CHR '' '')) (Range (ch CHR ''1'') (ch CHR ''9''))]),
      Lit (ch CHR ''_''),
      Grp 4 (alts (Seq (Lit (ch CHR ''2'')) (Range (ch CHR ''0'') (ch CHR ''3'')))
                  [Seq (Range (ch CHR ''0'') (ch CHR ''1'')) Digit,
                   Digit]),
      Lit (ch CHR '':''),
      Grp 5 (alts (Seq (Range (ch CHR ''0'') (ch CHR ''5'')) Digit) [Digit]),
      Lit (ch CHR '':''),
      Grp 6 (alts (Seq (Lit (ch CHR ''6'')) (Range (ch CHR ''0'') (ch CHR ''1'')))
                  [Seq (Range (ch CHR ''0'') (ch CHR ''5'')) Digit,
                   Digit])]"

text \<open>
  \<open>int\<close> on a string: surrounding whitespace is dropped and the decimal digits of any
  script are read in base ten.  Signs and underscores, which \<open>int\<close> also accepts, cannot
  occur in a text that matched a field of the pattern and are not modelled.
\<close>

definition digit_of :: "uchar \<Rightarrow> nat" where
  "digit_of c = (case decimal_value c of None \<Rightarrow> 0 | Some v \<Rightarrow> v)"

definition py_int :: "ustr \<Rightarrow> py_error + nat" where
  "py_int s =
     (let t = strip s
      in if t \<noteq> [] \<and> list_all isdecimal t
         then Inr (foldl (\<lambda>n c. 10 * n + digit_of c) 0 t)
         else Inl ValueError)"

definition group_int :: "groups \<Rightarrow> nat \<Rightarrow> py_error + nat" where
  "group_int g n = (case g n of None \<Rightarrow> Inl TypeError | Some s \<Rightarrow> py_int s)"

record datetime =
  year :: nat
  month :: nat
  day :: nat
  hour :: nat
  minute :: nat
  second :: nat

definition is_leap :: "nat \<Rightarrow> bool" where
  "is_leap y = (y mod 4 = 0 \<and> (y mod 100 \<noteq> 0 \<or> y mod 400 = 0))"

definition days_in_month :: "nat \<Rightarrow> nat \<Rightarrow> nat" where
  "days_in_month y m =
     (if m = 2 then (if is_leap y then 29 else 28)
      else if m = 4 \<or> m = 6 \<or> m = 9 \<or> m = 11 then 30 else 31)"

definition valid_datetime :: "datetime \<Rightarrow> bool" where
  "valid_datetime t =
     (1 \<le> year t \<and> year t \<le> 9999 \<and> 1 \<le> month t \<and> month t \<le> 12
      \<and> 1 \<le> day t \<and> day t \<le> days_in_month (year t) (month t)
      \<and> hour t < 24 \<and> minute t < 60 \<and> second t < 60)"

definition make_datetime :: "nat \<Rightarrow> nat \<Rightarrow> nat \<Rightarrow> nat \<Rightarrow> nat \<Rightarrow> nat \<Rightarrow> py_error + datetime" where
  "make_datetime y m d h mi s =
     (let t = \<lparr>year = y, month = m, day = d, hour = h, minute = mi, second = s\<rparr>
      in if valid_datetime t then Inr t else Inl ValueError)"

definition strptime :: "ustr \<Rightarrow> py_error + datetime" where
  "strptime data_string =
     (case match strptime_regex data_string of
        None \<Rightarrow> Inl ValueError
      | Some found \<Rightarrow>
          if fst found \<noteq> [] then Inl ValueError
          else
            bind_err (group_int (snd found) 1) (\<lambda>y.
            bind_err (group_int (snd found) 2) (\<lambda>m.
            bind_err (group_int (snd found) 3) (\<lambda>d.
            bind_err (group_int (snd found) 4) (\<lambda>h.
            bind_err (group_int (snd found) 5) (\<lambda>mi.
            bind_err (group_int (snd found) 6) (\<lambda>s.
            make_datetime y m d h mi s)))))))"

section \<open>Parsing the log: \<open>get_chat_dataframe\<close>\<close>

text \<open>
  The pattern of the notebook,
  \<^verbatim>\<open>:(.*)\!.*@.*\.tmi\.twitch\.tv PRIVMSG #(.*) :(.*)\<close>.
\<close>

definition privmsg_regex :: regex where
  "privmsg_regex = seqs
     [Lit (ch CHR '':''), Grp 1 (Star Dot), Lit (ch CHR ''!''), Star Dot,
      Lit (ch CHR ''@''), Star Dot, lits ''.tmi.twitch.tv PRIVMSG #'',
      Grp 2 (Star Dot), lits '' :'', Grp 3 (Star Dot)]"

text \<open>
  A row is the dict built for one record, in the order of its keys; its values are a
  \<open>datetime\<close> and the groups of the match.  \<open>groups()\<close> returns one entry per group of
  the pattern, \<open>None\<close> for a group that took no part in the match.
\<close>

datatype pyval = PyNone | Str ustr | Datetime datetime

type_synonym row = "(string \<times> pyval) list"

definition group_val :: "mstate \<Rightarrow> nat \<Rightarrow> pyval" where
  "group_val m i = (case snd m i of None \<Rightarrow> PyNone | Some s \<Rightarrow> Str s)"

definition groups_of :: "nat \<Rightarrow> mstate \<Rightarrow> pyval list" where
  "groups_of n m = map (group_val m) [1..<Suc n]"

text \<open>The body of the \<open>try\<close> block for one \<open>line\<close>: the dict \<open>d\<close>, or the exception raised.\<close>

definition parse_record :: "ustr \<Rightarrow> py_error + row" where
  "parse_record line =
     bind_err (split line [emdash]) (\<lambda>parts.
     bind_err (index parts 0) (\<lambda>first.
     bind_err (strptime (strip first)) (\<lambda>time_logged.
     bind_err (split line [emdash]) (\<lambda>parts'.
       let username_message = strip (join [emdash] (slice_from parts' 1))
       in case search privmsg_regex username_message of
            None \<Rightarrow> Inl AttributeError
          | Some m \<Rightarrow>
              (case groups_of 3 m of
                 [username, channel, message] \<Rightarrow>
                   Inr [(''dt'', Datetime time_logged), (''channel'', channel),
                        (''username'', username), (''message'', message)]
               | _ \<Rightarrow> Inl ValueError)))))"

text \<open>
  The \<open>for\<close> loop over the records with its \<open>try\<close> \<dots> \<open>except Exception: pass\<close>;
  \<open>data\<close> is the list of rows appended so far.
\<close>

fun parse_lines :: "row list \<Rightarrow> ustr list \<Rightarrow> py_error + row list" where
  "parse_lines data [] = Inr data"
| "parse_lines data (line # lines) =
     (case parse_record line of
        Inr d \<Rightarrow> parse_lines (data @ [d]) lines
      | Inl e \<Rightarrow> if is_Exception e then parse_lines data lines else Inl e)"

text \<open>
  \<open>get_chat_dataframe\<close> on a file with the given bytes.  The result stands for the
  \<open>DataFrame\<close> built from \<open>data\<close>: its rows, in order.
\<close>

definition get_chat_dataframe :: "byte list \<Rightarrow> py_error + row list" where
  "get_chat_dataframe file =
     bind_err (read_text file) (\<lambda>text.
     bind_err (split text [newline, newline, newline]) (\<lambda>lines.
       parse_lines [] lines))"

section \<open>A call of \<open>get_chat_dataframe\<close>: files and objects\<close>

text \<open>
  What a call reads and changes besides its argument: the files, by path; the file
  objects that \<open>open\<close> has created, each with the path it was opened on, its position in
  the file and whether it has been closed; and the list objects, of which \<open>data\<close> is
  one.  An object is addressed by its place in the order of creation, and the objects of
  a call stay in the store when the call is over, so that a later call starts from the
  store the earlier one has left.  The caches of compiled patterns that \<open>re\<close> and
  \<open>strptime\<close> keep do not change what these return and are left out.
\<close>

record file_object =
  fpath :: string
  fpos :: nat
  fclosed :: bool

record machine =
  files :: "string \<Rightarrow> byte list option"
  file_objects :: "file_object list"
  list_objects :: "row list list"

text \<open>\<open>data = []\<close> creates a list object, and \<open>data.append(d)\<close> changes that object.\<close>

definition new_list :: "machine \<Rightarrow> nat \<times> machine" where
  "new_list s = (length (list_objects s), s\<lparr>list_objects := list_objects s @ [[]]\<rparr>)"

definition list_append :: "nat \<Rightarrow> row \<Rightarrow> machine \<Rightarrow> machine" where
  "list_append a d s = s\<lparr>list_objects := (list_objects s)[a := list_objects s ! a @ [d]]\<rparr>"

text \<open>
  \<open>open(file, 'r', encoding='utf-8')\<close> raises \<open>FileNotFoundError\<close>, an \<open>OSError\<close>, when
  there is no such file; otherwise it creates a file object at the start of the file and
  leaves the file as it is.  \<open>f.read()\<close> on a closed file raises \<open>ValueError\<close>; on an
  open one it takes the bytes from the position to the end, which moves the position to
  the end, and decodes them.  Leaving the \<open>with\<close> block closes the file object.
  Nothing here removes a file or an object, so an address is always that of an object
  created before and the file of a file object is there when it is read; \<open>read_all\<close>
  raises \<open>OSError\<close> where it is not.
\<close>

definition open_read :: "string \<Rightarrow> machine \<Rightarrow> (py_error + nat) \<times> machine" where
  "open_read file s =
     (case files s file of
        None \<Rightarrow> (Inl OSError, s)
      | Some content \<Rightarrow>
          (Inr (length (file_objects s)),
           s\<lparr>file_objects :=
               file_objects s @ [\<lparr>fpath = file, fpos = 0, fclosed = False\<rparr>]\<rparr>))"

definition read_all :: "nat \<Rightarrow> machine \<Rightarrow> (py_error + ustr) \<times> machine" where
  "read_all f s =
     (let ob = file_objects s ! f in
      if fclosed ob then (Inl ValueError, s)
      else case files s (fpath ob) of
             None \<Rightarrow> (Inl OSError, s)
           | Some content \<Rightarrow>
               (read_text (drop (fpos ob) content),
                s\<lparr>file_objects := (file_objects s)[f := ob\<lparr>fpos := length content\<rparr>]\<rparr>))"

definition close_file :: "nat \<Rightarrow> machine \<Rightarrow> machine" where
  "close_file f s =
     s\<lparr>file_objects := (file_objects s)[f := (file_objects s ! f)\<lparr>fclosed := True\<rparr>]\<rparr>"

text \<open>
  The \<open>for\<close> loop, appending to the list object \<open>data\<close>; the body of the \<open>with\<close>
  block; and the call: \<open>data = []\<close>, the \<open>with\<close> block, which closes \<open>f\<close> also when
  its body raises, and the \<open>DataFrame\<close> of the rows that \<open>data\<close> holds at the end.
\<close>

fun for_lines :: "nat \<Rightarrow> ustr list \<Rightarrow> machine \<Rightarrow> (py_error + unit) \<times> machine" where
  "for_lines data [] s = (Inr (), s)"
| "for_lines data (line # lines) s =
     (case parse_record line of
        Inr d \<Rightarrow> for_lines data lines (list_append data d s)
      | Inl e \<Rightarrow> if is_Exception e then for_lines data lines s else (Inl e, s))"

definition with_body :: "nat \<Rightarrow> nat \<Rightarrow> machine \<Rightarrow> (py_error + unit) \<times> machine" where
  "with_body f data s =
     (case read_all f s of
        (Inl e, s') \<Rightarrow> (Inl e, s')
      | (Inr text, s') \<Rightarrow>
          (case split text [newline, newline, newline] of
             Inl e \<Rightarrow> (Inl e, s')
           | Inr lines \<Rightarrow> for_lines data lines s'))"

definition call_get_chat_dataframe ::
  "string \<Rightarrow> machine \<Rightarrow> (py_error + row list) \<times> machine" where
  "call_get_chat_dataframe file s =
     (case new_list s of
        (data, s1) \<Rightarrow>
          (case open_read file s1 of
             (Inl e, s2) \<Rightarrow> (Inl e, s2)
           | (Inr f, s2) \<Rightarrow>
               (case with_body f data s2 of
                  (Inl e, s3) \<Rightarrow> (Inl e, close_file f s3)
                | (Inr u, s3) \<Rightarrow>
                    (Inr (list_objects (close_file f s3) ! data), close_file f s3))))"

section \<open>The receive loop\<close>

text \<open>
  The loop talks to three things outside the program: the socket, the clock of the
  logging module and the \<open>emoji\<close> package.  The first two are an environment that fixes
  what every call does: the \<open>n\<close>-th \<open>sock.recv(2048)\<close> returns a chunk (of at most 2048
  bytes; the empty chunk once the peer has closed the connection) or raises, the
  \<open>n\<close>-th \<open>sock.send\<close> returns or raises, and the \<open>n\<close>-th logging call reads a local
  time.  \<open>demojize\<close> is a parameter of the loop.
\<close>

datatype recv_outcome = Received "byte list" | RecvRaises py_error

record env =
  recv_at :: "nat \<Rightarrow> recv_outcome"
  send_at :: "nat \<Rightarrow> py_error option"
  clock_at :: "nat \<Rightarrow> datetime"

text \<open>
  What the loop has done so far: the number of \<open>recv\<close> calls, the payloads passed to
  \<open>sock.send\<close>, and the texts appended to \<open>chat.log\<close>, one for each logging call.
\<close>

record world =
  recvs :: nat
  send_calls :: "byte list list"
  log :: "ustr list"

text \<open>
  \<open>logging.info\<close> under the \<open>basicConfig\<close> of the notebook: the format is
  \<open>%(asctime)s\<close>, space, em dash, space, \<open>%(message)s\<close>, the date format is
  \<open>%Y-%m-%d_%H:%M:%S\<close>, and the \<open>FileHandler\<close> ends every entry with a newline.  The
  time of an entry is the local time that the logging call reads.
\<close>

definition digit2 :: "nat \<Rightarrow> ustr" where
  "digit2 n = [48 + n div 10 mod 10, 48 + n mod 10]"

definition digit4 :: "nat \<Rightarrow> ustr" where
  "digit4 n =
     [48 + n div 1000 mod 10, 48 + n div 100 mod 10, 48 + n div 10 mod 10, 48 + n mod 10]"

definition strftime :: "datetime \<Rightarrow> ustr" where
  "strftime t =
     digit4 (year t) @ ascii ''-'' @ digit2 (month t) @ ascii ''-'' @ digit2 (day t)
     @ ascii ''_'' @ digit2 (hour t) @ ascii '':'' @ digit2 (minute t) @ ascii '':''
     @ digit2 (second t)"

definition log_entry :: "datetime \<Rightarrow> ustr \<Rightarrow> ustr" where
  "log_entry t msg = strftime t @ ascii '' '' @ [emdash] @ ascii '' '' @ msg @ [newline]"

definition logging_info :: "env \<Rightarrow> world \<Rightarrow> ustr \<Rightarrow> world" where
  "logging_info e w msg = w\<lparr>log := log w @ [log_entry (clock_at e (length (log w))) msg]\<rparr>"

definition sock_send :: "env \<Rightarrow> world \<Rightarrow> byte list \<Rightarrow> py_error option \<times> world" where
  "sock_send e w payload =
     (send_at e (length (send_calls w)), w\<lparr>send_calls := send_calls w @ [payload]\<rparr>)"

text \<open>
  One round of \<open>while True\<close>: the exception that ends it, if any, and the world after it.
  \<open>"PONG\n".encode('utf-8')\<close> is the five bytes of that ASCII text.
\<close>

definition loop_body :: "(ustr \<Rightarrow> ustr) \<Rightarrow> env \<Rightarrow> world \<Rightarrow> py_error option \<times> world" where
  "loop_body demojize e w =
     (case recv_at e (recvs w) of
        RecvRaises err \<Rightarrow> (Some err, w\<lparr>recvs := Suc (recvs w)\<rparr>)
      | Received chunk \<Rightarrow>
          (case utf8_decode chunk of
             Inl err \<Rightarrow> (Some err, w\<lparr>recvs := Suc (recvs w)\<rparr>)
           | Inr resp \<Rightarrow>
               if startswith resp (ascii ''PING'')
               then sock_send e (w\<lparr>recvs := Suc (recvs w)\<rparr>) (ascii_bytes ''PONG'' @ [10])
               else if length resp > 0
               then (None, logging_info e (w\<lparr>recvs := Suc (recvs w)\<rparr>) (demojize resp))
               else (None, w\<lparr>recvs := Suc (recvs w)\<rparr>)))"

text \<open>
  The loop has no \<open>break\<close> and no condition: it returns only when a round raises, with
  that exception, and \<open>None\<close> stands for a loop that runs forever.
\<close>

partial_function (option) receive_loop ::
  "(ustr \<Rightarrow> ustr) \<Rightarrow> env \<Rightarrow> world \<Rightarrow> (py_error \<times> world) option" where
  "receive_loop demojize e w =
     (case fst (loop_body demojize e w) of
        Some err \<Rightarrow> Some (err, snd (loop_body demojize e w))
      | None \<Rightarrow> receive_loop demojize e (snd (loop_body demojize e w)))"

text \<open>
  The \<open>emoji\<close> package is not part of the repository.  The notebook gives one example of
  what it does: a thumbs-up sign (U+1F44D) is written as \<open>:thumbs_up:\<close>.
  \<open>demojize_sample\<close> does that and leaves every other character as it is.
\<close>

definition demojize_sample :: "ustr \<Rightarrow> ustr" where
  "demojize_sample s = concat (map (\<lambda>c. if c = 128077 then ascii '':thumbs_up:'' else [c]) s)"

section \<open>Notions used to state the properties\<close>

text \<open>
  The text of a record before its first em dash (the whole record when it has none) and
  the text after it; the records of a log; the row that a record contributes, if any;
  and the first whitespace-delimited token of a text, as \<open>s.split()[0]\<close> computes it.
\<close>

definition before_sep :: "ustr \<Rightarrow> ustr" where
  "before_sep line = takeWhile (\<lambda>c. c \<noteq> emdash) line"

definition after_sep :: "ustr \<Rightarrow> ustr" where
  "after_sep line = tl (dropWhile (\<lambda>c. c \<noteq> emdash) line)"

definition records :: "ustr \<Rightarrow> ustr list" where
  "records text = split_from [newline, newline, newline] [] text"

definition row_of :: "ustr \<Rightarrow> row option" where
  "row_of line = (case parse_record line of Inl e \<Rightarrow> None | Inr d \<Rightarrow> Some d)"

definition first_token :: "ustr \<Rightarrow> ustr" where
  "first_token s = takeWhile (\<lambda>c. \<not> isspace c) (dropWhile isspace s)"

text \<open>
  The length of the first line of a text, and two texts of the pattern: the separator
  between channel and message, and the fixed text before the channel's \<open>#\<close>.
\<close>

definition line_len :: "ustr \<Rightarrow> nat" where
  "line_len s = length (takeWhile (\<lambda>c. c \<noteq> newline) s)"

definition sp_colon :: ustr where
  "sp_colon = [32, 58]"

definition server_text :: ustr where
  "server_text = ascii ''.tmi.twitch.tv PRIVMSG ''"

section \<open>Inputs used in the examples\<close>

text \<open>
  Logs are given as the bytes of the file; the em dash is \<open>E2 80 94\<close> in UTF-8.
  \<open>one_record_log\<close> holds one record and the three newlines that end it; the other
  logs hold one record each: one whose three fields are empty, one with a second token
  before the separator, one whose message has an em dash, one whose message has an em
  dash and then a colon after a space, and one whose message has a colon after a space.
\<close>

definition logged_at :: datetime where
  "logged_at = \<lparr>year = 2018, month = 12, day = 10, hour = 11, minute = 26, second = 40\<rparr>"

definition one_record_line :: ustr where
  "one_record_line = ascii ''2018-12-10_11:26:40 '' @ [emdash]
     @ ascii '' :alice!alice@alice.tmi.twitch.tv PRIVMSG #ninja :hello world''"

definition one_record_text :: ustr where
  "one_record_text = one_record_line @ [newline, newline, newline]"

definition one_record_log :: "byte list" where
  "one_record_log =
     ascii_bytes ''2018-12-10_11:26:40 '' @ [226, 128, 148]
     @ ascii_bytes '' :alice!alice@alice.tmi.twitch.tv PRIVMSG #ninja :hello world''
     @ [10, 10, 10]"

definition one_record_row :: row where
  "one_record_row =
     [(''dt'', Datetime logged_at), (''channel'', Str (ascii ''ninja'')),
      (''username'', Str (ascii ''alice'')), (''message'', Str (ascii ''hello world''))]"

definition empty_fields_log :: "byte list" where
  "empty_fields_log =
     ascii_bytes ''2018-12-10_11:26:40 '' @ [226, 128, 148]
     @ ascii_bytes '' :!@.tmi.twitch.tv PRIVMSG # :''"

definition extra_token_text :: ustr where
  "extra_token_text = ascii ''2018-12-10_11:26:40 x '' @ [emdash]
     @ ascii '' :alice!alice@alice.tmi.twitch.tv PRIVMSG #ninja :hi''"

definition extra_token_log :: "byte list" where
  "extra_token_log =
     ascii_bytes ''2018-12-10_11:26:40 x '' @ [226, 128, 148]
     @ ascii_bytes '' :alice!alice@alice.tmi.twitch.tv PRIVMSG #ninja :hi''"

definition dash_colon_log :: "byte list" where
  "dash_colon_log =
     ascii_bytes ''2018-12-10_11:26:40 '' @ [226, 128, 148]
     @ ascii_bytes '' :alice!alice@alice.tmi.twitch.tv PRIVMSG #ninja :a '' @ [226, 128, 148]
     @ ascii_bytes '' b :c''"

definition dash_colon_line :: ustr where
  "dash_colon_line = ascii ''2018-12-10_11:26:40 '' @ [emdash]
     @ ascii '' :alice!alice@alice.tmi.twitch.tv PRIVMSG #ninja :a '' @ [emdash]
     @ ascii '' b :c''"

definition colon_body_log :: "byte list" where
  "colon_body_log =
     ascii_bytes ''2018-12-10_11:26:40 '' @ [226, 128, 148]
     @ ascii_bytes '' :alice!alice@alice.tmi.twitch.tv PRIVMSG #ninja :see this :wow''"

definition dash_body :: ustr where
  "dash_body = ascii ''a '' @ [emdash] @ ascii '' b''"

definition dash_body_log :: "byte list" where
  "dash_body_log =
     ascii_bytes ''2018-12-10_11:26:40 '' @ [226, 128, 148]
     @ ascii_bytes '' :alice!alice@alice.tmi.twitch.tv PRIVMSG #ninja :a '' @ [226, 128, 148]
     @ ascii_bytes '' b''"

text \<open>
  A store with the file \<open>chat.log\<close> of the notebook, holding the one-record log, and no
  objects; and the same store after one call on that file and after two.
\<close>

definition machine0 :: machine where
  "machine0 =
     \<lparr>files = (\<lambda>p. if p = ''chat.log'' then Some one_record_log else None),
      file_objects = [], list_objects = []\<rparr>"

definition machine1 :: machine where
  "machine1 =
     machine0\<lparr>file_objects :=
                [\<lparr>fpath = ''chat.log'', fpos = length one_record_log, fclosed = True\<rparr>],
              list_objects := [[one_record_row]]\<rparr>"

definition machine2 :: machine where
  "machine2 =
     machine0\<lparr>file_objects :=
                [\<lparr>fpath = ''chat.log'', fpos = length one_record_log, fclosed = True\<rparr>,
                 \<lparr>fpath = ''chat.log'', fpos = length one_record_log, fclosed = True\<rparr>],
              list_objects := [[one_record_row], [one_record_row]]\<rparr>"

text \<open>
  For the receive loop: a world in which nothing has happened yet, an environment whose
  every \<open>recv\<close> has the same outcome, one whose third \<open>recv\<close> raises, and four
  chunks: a thumbs-up sign, \<open>PING\<close> followed by a byte that is not UTF-8, a \<open>PING\<close>
  line, and a chat line.
\<close>

definition world0 :: world where
  "world0 = \<lparr>recvs = 0, send_calls = [], log = []\<rparr>"

definition const_env :: "recv_outcome \<Rightarrow> env" where
  "const_env r = \<lparr>recv_at = (\<lambda>n. r), send_at = (\<lambda>n. None), clock_at = (\<lambda>n. logged_at)\<rparr>"

definition reset_env :: env where
  "reset_env = \<lparr>recv_at = (\<lambda>n. if n < 2 then Received [] else RecvRaises OSError),
                 send_at = (\<lambda>n. None), clock_at = (\<lambda>n. logged_at)\<rparr>"

definition thumbs_up_chunk :: "byte list" where
  "thumbs_up_chunk = [240, 159, 145, 141]"

definition garbled_ping_chunk :: "byte list" where
  "garbled_ping_chunk = ascii_bytes ''PING'' @ [255]"

definition ping_chunk :: "byte list" where
  "ping_chunk = ascii_bytes ''PING :tmi.twitch.tv'' @ [13, 10]"

definition hello_chunk :: "byte list" where
  "hello_chunk = ascii_bytes '':alice!alice@alice.tmi.twitch.tv PRIVMSG #ninja :hello'' @ [13, 10]"

definition hello_text :: ustr where
  "hello_text = ascii '':alice!alice@alice.tmi.twitch.tv PRIVMSG #ninja :hello'' @ [13, 10]"

section \<open>Lemmas\<close>

subsection \<open>The matcher on the pattern of the notebook\<close>

lemma groups_of_3: "groups_of 3 m = [group_val m 1, group_val m 2, group_val m 3]"
  by (simp add: groups_of_def upt_rec numeral_2_eq_2 numeral_3_eq_3)

lemma line_len_le: "line_len s \<le> length s"
  by (simp add: line_len_def length_takeWhile_le)

lemma line_len_simps [simp]:
  "line_len [] = 0"
  "line_len (x # xs) = (if x = newline then 0 else Suc (line_len xs))"
  by (simp_all add: line_len_def)

lemma rev_upt_Suc: "rev [0..<Suc (Suc n)] = map Suc (rev [0..<Suc n]) @ [0]"
proof -
  have "[0..<Suc (Suc n)] = 0 # map Suc [0..<Suc n]"
    by (subst upt_conv_Cons) (simp_all add: map_Suc_upt del: upt_Suc)
  then show ?thesis by (simp only: rev.simps rev_map)
qed

lemma backtrack_Star_Dot:
  "backtrack (Star Dot) (s, g) = map (\<lambda>k. (drop k s, g)) (rev [0..<Suc (line_len s)])"
proof (induction s)
  case Nil
  show ?case by (simp add: step_char_def)
next
  case (Cons x xs)
  show ?case
  proof (cases "x = newline")
    case True
    then show ?thesis by (simp add: step_char_def)
  next
    case False
    have "backtrack (Star Dot) (x # xs, g) = backtrack (Star Dot) (xs, g) @ [(x # xs, g)]"
      using False by (simp add: step_char_def)
    also have "\<dots> = map (\<lambda>k. (drop k xs, g)) (rev [0..<Suc (line_len xs)]) @ [(x # xs, g)]"
      by (simp only: Cons.IH)
    also have "\<dots> = map (\<lambda>k. (drop k (x # xs), g)) (rev [0..<Suc (Suc (line_len xs))])"
      by (simp only: rev_upt_Suc) (simp add: comp_def)
    finally show ?thesis using False by simp
  qed
qed

lemma backtrack_Grp_Star_Dot:
  "backtrack (Grp n (Star Dot)) (s, g) =
     map (\<lambda>k. (drop k s, g(n \<mapsto> take k s))) (rev [0..<Suc (line_len s)])"
proof -
  have "\<And>k. k \<in> set (rev [0..<Suc (line_len s)]) \<Longrightarrow> length s - (length s - k) = k"
    using line_len_le [of s] by auto
  then show ?thesis
    by (simp del: backtrack.simps(8) upt_Suc add: backtrack_Star_Dot comp_def cong: map_cong)
qed

lemma concat_rev_upt_first:
  "concat (map f (rev [0..<m])) = x # xs \<Longrightarrow>
     \<exists>k<m. (\<exists>ys. f k = x # ys) \<and> (\<forall>j. k < j \<and> j < m \<longrightarrow> f j = [])"
proof (induction m)
  case 0
  then show ?case by simp
next
  case (Suc m)
  show ?case
  proof (cases "f m")
    case Nil
    with Suc.prems have "concat (map f (rev [0..<m])) = x # xs" by simp
    from Suc.IH [OF this] obtain k where k: "k < m" "\<exists>ys. f k = x # ys"
      "\<forall>j. k < j \<and> j < m \<longrightarrow> f j = []" by blast
    have "\<forall>j. k < j \<and> j < Suc m \<longrightarrow> f j = []"
      using k(3) Nil by (auto simp: less_Suc_eq)
    with k show ?thesis by (metis less_Suc_eq)
  next
    case (Cons y ys)
    with Suc.prems have "f m = x # ys" by simp
    then show ?thesis by (intro exI [of _ m]) auto
  qed
qed

lemma backtrack_seqs_Lit:
  "backtrack (seqs (map Lit w)) (s, g) = (if startswith s w then [(drop (length w) s, g)] else [])"
proof (induction w arbitrary: s rule: induct_list012)
  case 1
  show ?case by (simp add: startswith_def)
next
  case (2 a)
  show ?case by (cases s) (auto simp: startswith_def step_char_def)
next
  case (3 a b w)
  show ?case
  proof (cases s)
    case Nil
    then show ?thesis by (simp add: startswith_def step_char_def)
  next
    case (Cons x xs)
    show ?thesis using 3(2) [of xs] Cons
      by (auto simp: startswith_def step_char_def)
  qed
qed

lemma take_line_len_no_newline: "k \<le> line_len s \<Longrightarrow> newline \<notin> set (take k s)"
proof (induction s arbitrary: k)
  case Nil
  then show ?case by simp
next
  case (Cons x xs)
  then show ?case by (cases k) (auto split: if_splits)
qed

lemma drop_line_len: "drop (line_len s) s = [] \<or> hd (drop (line_len s) s) = newline"
  by (induction s) auto

lemma line_len_append_ge: "newline \<notin> set p \<Longrightarrow> length p \<le> line_len (p @ q)"
  by (induction p) auto

lemma backtrack_Seq_first:
  assumes "backtrack (Seq r1 r2) st = x # xs"
  shows "\<exists>st' \<in> set (backtrack r1 st). \<exists>ys. backtrack r2 st' = x # ys"
proof -
  have "concat (map (backtrack r2) l) = x # xs \<Longrightarrow>
          \<exists>st' \<in> set l. \<exists>ys. backtrack r2 st' = x # ys" for l
  proof (induction l)
    case Nil
    then show ?case by simp
  next
    case (Cons a l)
    then show ?case by (cases "backtrack r2 a") auto
  qed
  with assms show ?thesis by simp
qed

lemma backtrack_Grp_Star_Dot_nonempty: "backtrack (Grp n (Star Dot)) (s, g) \<noteq> []"
  by (simp add: backtrack_Grp_Star_Dot del: backtrack.simps)

lemma backtrack_Grp_Star_Dot_hd:
  "\<exists>ys. backtrack (Grp n (Star Dot)) (s, g) =
      (drop (line_len s) s, g(n \<mapsto> take (line_len s) s)) # ys"
  by (simp add: backtrack_Grp_Star_Dot del: backtrack.simps)

lemma backtrack_sep_then:
  "backtrack (Seq (seqs (map Lit sp_colon)) r) (s, g) =
     (if startswith s sp_colon then backtrack r (drop 2 s, g) else [])"
  by (simp only: backtrack.simps(6) backtrack_seqs_Lit) (simp add: sp_colon_def numeral_2_eq_2)

lemma startswith_iff: "startswith s w \<longleftrightarrow> (\<exists>r. s = w @ r)"
  by (metis append_eq_conv_conj startswith_def)

text \<open>
  The first way to match the end of the pattern, \<open>(.*) :(.*)\<close>: the channel group runs
  to the last space-colon of the line and the message group takes the rest of the line.
\<close>

lemma tail_first:
  assumes "backtrack (Seq (Grp 2 (Star Dot)) (Seq (seqs (map Lit sp_colon)) (Grp 3 (Star Dot))))
             (t, g) = x # xs"
  shows "\<exists>c msg post. t = c @ sp_colon @ msg @ post \<and> x = (post, g(2 \<mapsto> c, 3 \<mapsto> msg))
           \<and> newline \<notin> set c \<and> newline \<notin> set msg \<and> (post = [] \<or> hd post = newline)
           \<and> (\<nexists>a b. msg = a @ sp_colon @ b)"
proof -
  define B where "B = Seq (seqs (map Lit sp_colon)) (Grp 3 (Star Dot))"
  define f where "f k = backtrack B (drop k t, g(2 \<mapsto> take k t))" for k
  have fE: "f = (\<lambda>k. backtrack B (drop k t, g(2 \<mapsto> take k t)))"
    by (rule ext) (simp add: f_def)
  have "backtrack (Seq (Grp 2 (Star Dot)) B) (t, g) = concat (map f (rev [0..<Suc (line_len t)]))"
    by (simp add: backtrack_Grp_Star_Dot fE comp_def del: backtrack.simps(8,9) upt_Suc)
  with assms have "concat (map f (rev [0..<Suc (line_len t)])) = x # xs"
    by (simp add: B_def)
  from concat_rev_upt_first [OF this] obtain k ys where k: "k \<le> line_len t" "f k = x # ys"
    and last: "\<And>j. k < j \<Longrightarrow> j \<le> line_len t \<Longrightarrow> f j = []"
    by (auto simp: less_Suc_eq_le)
  have f_eq: "f j = (if startswith (drop j t) sp_colon
                     then backtrack (Grp 3 (Star Dot)) (drop 2 (drop j t), g(2 \<mapsto> take j t))
                     else [])" for j
    unfolding f_def B_def by (rule backtrack_sep_then)
  from k(2) have sw: "startswith (drop k t) sp_colon"
    by (simp add: f_eq split: if_splits)
  define r where "r = drop 2 (drop k t)"
  have "take 2 (drop k t) = sp_colon"
    using sw by (simp add: startswith_def sp_colon_def numeral_2_eq_2)
  then have dk: "drop k t = sp_colon @ r"
    unfolding r_def by (metis append_take_drop_id)
  define c where "c = take k t"
  define msg where "msg = take (line_len r) r"
  define post where "post = drop (line_len r) r"
  have t_eq: "t = c @ sp_colon @ msg @ post"
    by (metis append_take_drop_id c_def dk msg_def post_def)
  have x_eq: "x = (post, g(2 \<mapsto> c, 3 \<mapsto> msg))"
    using k(2) sw backtrack_Grp_Star_Dot_hd [of 3 r "g(2 \<mapsto> c)"]
    by (auto simp: f_eq r_def c_def msg_def post_def simp del: backtrack.simps)
  have nc: "newline \<notin> set c"
    unfolding c_def using k(1) by (rule take_line_len_no_newline)
  have nm: "newline \<notin> set msg"
    unfolding msg_def by (rule take_line_len_no_newline) simp
  have np: "post = [] \<or> hd post = newline"
    unfolding post_def by (rule drop_line_len)
  have "msg \<noteq> a @ sp_colon @ b" for a b
  proof
    assume m: "msg = a @ sp_colon @ b"
    define p where "p = c @ sp_colon @ a"
    have tp: "t = p @ sp_colon @ b @ post"
      using t_eq m by (simp add: p_def)
    have "newline \<notin> set p"
      using nc nm m by (auto simp: p_def sp_colon_def newline_def)
    then have "length p \<le> line_len t"
      unfolding tp by (rule line_len_append_ge)
    moreover have "k < length p"
      using k(1) line_len_le [of t] by (simp add: p_def c_def sp_colon_def)
    ultimately have "f (length p) = []" using last by blast
    moreover have "drop (length p) t = sp_colon @ b @ post"
      unfolding tp by simp
    ultimately show False
      using backtrack_Grp_Star_Dot_nonempty
      by (simp add: f_eq startswith_iff del: backtrack.simps)
  qed
  with t_eq x_eq nc nm np show ?thesis by blast
qed

lemma mem_Lit:
  "st' \<in> set (backtrack (Lit a) (s, g)) \<Longrightarrow> s = a # fst st' \<and> snd st' = g"
  by (auto simp: step_char_def split: list.splits if_splits)

lemma mem_Star_Dot:
  "st' \<in> set (backtrack (Star Dot) (s, g)) \<Longrightarrow>
     \<exists>p. s = p @ fst st' \<and> snd st' = g \<and> newline \<notin> set p"
proof -
  assume "st' \<in> set (backtrack (Star Dot) (s, g))"
  then obtain k where "k \<le> line_len s" "st' = (drop k s, g)"
    by (auto simp: backtrack_Star_Dot less_Suc_eq_le simp del: backtrack.simps upt_Suc)
  then have "s = take k s @ fst st' \<and> snd st' = g \<and> newline \<notin> set (take k s)"
    by (simp add: take_line_len_no_newline)
  then show ?thesis ..
qed

lemma mem_Grp_Star_Dot:
  "st' \<in> set (backtrack (Grp n (Star Dot)) (s, g)) \<Longrightarrow>
     \<exists>p. s = p @ fst st' \<and> snd st' = g(n \<mapsto> p) \<and> newline \<notin> set p"
proof -
  assume "st' \<in> set (backtrack (Grp n (Star Dot)) (s, g))"
  then obtain k where "k \<le> line_len s" "st' = (drop k s, g(n \<mapsto> take k s))"
    by (auto simp: backtrack_Grp_Star_Dot less_Suc_eq_le simp del: backtrack.simps upt_Suc)
  then have "s = take k s @ fst st' \<and> snd st' = g(n \<mapsto> take k s) \<and> newline \<notin> set (take k s)"
    by (simp add: take_line_len_no_newline)
  then show ?thesis ..
qed

lemma mem_seqs_Lit:
  "st' \<in> set (backtrack (seqs (map Lit w)) (s, g)) \<Longrightarrow> s = w @ fst st' \<and> snd st' = g"
  by (auto simp: backtrack_seqs_Lit startswith_def split: if_splits)
     (metis append_take_drop_id)

lemma privmsg_regex_unfold:
  "privmsg_regex =
     Seq (Lit 58) (Seq (Grp 1 (Star Dot)) (Seq (Lit 33) (Seq (Star Dot) (Seq (Lit 64)
       (Seq (Star Dot) (Seq (seqs (map Lit (server_text @ [35])))
         (Seq (Grp 2 (Star Dot)) (Seq (seqs (map Lit sp_colon)) (Grp 3 (Star Dot))))))))))"
  by (simp add: privmsg_regex_def lits_def ascii_def ch_def server_text_def sp_colon_def)

lemma privmsg_first:
  assumes "backtrack privmsg_regex (s, g) = x # xs"
  shows "\<exists>u mid c msg post.
           s = [58] @ u @ [33] @ mid @ [35] @ c @ sp_colon @ msg @ post
           \<and> x = (post, g(1 \<mapsto> u, 2 \<mapsto> c, 3 \<mapsto> msg))
           \<and> newline \<notin> set u \<and> newline \<notin> set c \<and> newline \<notin> set msg
           \<and> (post = [] \<or> hd post = newline) \<and> (\<nexists>a b. msg = a @ sp_colon @ b)"
proof -
  note [simp del] = backtrack.simps
  from assms obtain st1 ys1 where st1: "st1 \<in> set (backtrack (Lit 58) (s, g))"
    and r1: "backtrack (Seq (Grp 1 (Star Dot)) (Seq (Lit 33) (Seq (Star Dot) (Seq (Lit 64)
       (Seq (Star Dot) (Seq (seqs (map Lit (server_text @ [35])))
         (Seq (Grp 2 (Star Dot)) (Seq (seqs (map Lit sp_colon)) (Grp 3 (Star Dot))))))))))
        st1 = x # ys1"
    unfolding privmsg_regex_unfold by (blast dest: backtrack_Seq_first)
  from mem_Lit [OF st1] have e1: "s = 58 # fst st1" "snd st1 = g" by simp_all
  from r1 obtain st2 ys2 where st2: "st2 \<in> set (backtrack (Grp 1 (Star Dot)) (fst st1, snd st1))"
    and r2: "backtrack (Seq (Lit 33) (Seq (Star Dot) (Seq (Lit 64)
       (Seq (Star Dot) (Seq (seqs (map Lit (server_text @ [35])))
         (Seq (Grp 2 (Star Dot)) (Seq (seqs (map Lit sp_colon)) (Grp 3 (Star Dot)))))))))
        st2 = x # ys2"
    by (auto dest: backtrack_Seq_first)
  from mem_Grp_Star_Dot [OF st2] obtain u where
    e2: "fst st1 = u @ fst st2" "snd st2 = (snd st1)(1 \<mapsto> u)" "newline \<notin> set u" by blast
  from r2 obtain st3 ys3 where st3: "st3 \<in> set (backtrack (Lit 33) (fst st2, snd st2))"
    and r3: "backtrack (Seq (Star Dot) (Seq (Lit 64)
       (Seq (Star Dot) (Seq (seqs (map Lit (server_text @ [35])))
         (Seq (Grp 2 (Star Dot)) (Seq (seqs (map Lit sp_colon)) (Grp 3 (Star Dot))))))))
        st3 = x # ys3"
    by (auto dest: backtrack_Seq_first)
  from mem_Lit [OF st3] have e3: "fst st2 = 33 # fst st3" "snd st3 = snd st2" by simp_all
  from r3 obtain st4 ys4 where st4: "st4 \<in> set (backtrack (Star Dot) (fst st3, snd st3))"
    and r4: "backtrack (Seq (Lit 64)
       (Seq (Star Dot) (Seq (seqs (map Lit (server_text @ [35])))
         (Seq (Grp 2 (Star Dot)) (Seq (seqs (map Lit sp_colon)) (Grp 3 (Star Dot)))))))
        st4 = x # ys4"
    by (auto dest: backtrack_Seq_first)
  from mem_Star_Dot [OF st4] obtain p4 where
    e4: "fst st3 = p4 @ fst st4" "snd st4 = snd st3" by blast
  from r4 obtain st5 ys5 where st5: "st5 \<in> set (backtrack (Lit 64) (fst st4, snd st4))"
    and r5: "backtrack (Seq (Star Dot) (Seq (seqs (map Lit (server_text @ [35])))
         (Seq (Grp 2 (Star Dot)) (Seq (seqs (map Lit sp_colon)) (Grp 3 (Star Dot))))))
        st5 = x # ys5"
    by (auto dest: backtrack_Seq_first)
  from mem_Lit [OF st5] have e5: "fst st4 = 64 # fst st5" "snd st5 = snd st4" by simp_all
  from r5 obtain st6 ys6 where st6: "st6 \<in> set (backtrack (Star Dot) (fst st5, snd st5))"
    and r6: "backtrack (Seq (seqs (map Lit (server_text @ [35])))
         (Seq (Grp 2 (Star Dot)) (Seq (seqs (map Lit sp_colon)) (Grp 3 (Star Dot)))))
        st6 = x # ys6"
    by (auto dest: backtrack_Seq_first)
  from mem_Star_Dot [OF st6] obtain p6 where
    e6: "fst st5 = p6 @ fst st6" "snd st6 = snd st5" by blast
  from r6 obtain st7 ys7 where
    st7: "st7 \<in> set (backtrack (seqs (map Lit (server_text @ [35]))) (fst st6, snd st6))"
    and r7: "backtrack (Seq (Grp 2 (Star Dot)) (Seq (seqs (map Lit sp_colon)) (Grp 3 (Star Dot))))
        (fst st7, snd st7) = x # ys7"
    by (auto dest: backtrack_Seq_first)
  from mem_seqs_Lit [OF st7] have
    e7: "fst st6 = (server_text @ [35]) @ fst st7" "snd st7 = snd st6" by simp_all
  from tail_first [OF r7] obtain c msg post where
    t: "fst st7 = c @ sp_colon @ msg @ post" "x = (post, (snd st7)(2 \<mapsto> c, 3 \<mapsto> msg))"
       "newline \<notin> set c" "newline \<notin> set msg" "post = [] \<or> hd post = newline"
       "\<nexists>a b. msg = a @ sp_colon @ b"
    by blast
  have "s = [58] @ u @ [33] @ (p4 @ [64] @ p6 @ server_text) @ [35] @ c @ sp_colon @ msg @ post"
    by (simp add: e1 e2 e3 e4 e5 e6 e7 t(1))
  moreover have "x = (post, g(1 \<mapsto> u, 2 \<mapsto> c, 3 \<mapsto> msg))"
    by (simp add: t(2) e7 e6 e5 e4 e3 e2 e1)
  ultimately show ?thesis using e2(3) t(3-6) by blast
qed

lemma search_Some:
  "search r s = Some m \<Longrightarrow> \<exists>pre s'. s = pre @ s' \<and> match r s' = Some m"
proof (induction s)
  case Nil
  then show ?case by simp
next
  case (Cons a s)
  show ?case
  proof (cases "match r (a # s)")
    case None
    with Cons.prems have "search r s = Some m" by simp
    from Cons.IH [OF this] obtain pre s' where "s = pre @ s'" "match r s' = Some m" by blast
    then have "a # s = (a # pre) @ s' \<and> match r s' = Some m" by simp
    then show ?thesis by blast
  next
    case (Some st)
    with Cons.prems have "a # s = [] @ (a # s) \<and> match r (a # s) = Some m" by simp
    then show ?thesis by blast
  qed
qed

lemma match_Some: "match r s = Some m \<Longrightarrow> \<exists>xs. backtrack r (s, Map.empty) = m # xs"
  by (simp add: match_def split: list.splits)

lemma search_privmsg:
  assumes "search privmsg_regex s = Some m"
  shows "\<exists>pre u mid c msg post.
           s = pre @ [58] @ u @ [33] @ mid @ [35] @ c @ sp_colon @ msg @ post
           \<and> snd m 1 = Some u \<and> snd m 2 = Some c \<and> snd m 3 = Some msg
           \<and> newline \<notin> set u \<and> newline \<notin> set c \<and> newline \<notin> set msg
           \<and> (post = [] \<or> hd post = newline) \<and> (\<nexists>a b. msg = a @ sp_colon @ b)"
proof -
  from search_Some [OF assms] obtain pre s' where s: "s = pre @ s'"
    and "match privmsg_regex s' = Some m" by blast
  from match_Some [OF this(2)] obtain xs where
    "backtrack privmsg_regex (s', Map.empty) = m # xs" ..
  from privmsg_first [OF this] obtain u mid c msg post where
    f: "s' = [58] @ u @ [33] @ mid @ [35] @ c @ sp_colon @ msg @ post"
       "m = (post, [1 \<mapsto> u, 2 \<mapsto> c, 3 \<mapsto> msg])"
       "newline \<notin> set u \<and> newline \<notin> set c \<and> newline \<notin> set msg
           \<and> (post = [] \<or> hd post = newline) \<and> (\<nexists>a b. msg = a @ sp_colon @ b)"
    by blast
  have "s = pre @ [58] @ u @ [33] @ mid @ [35] @ c @ sp_colon @ msg @ post"
    using s f(1) by simp
  moreover have "snd m 1 = Some u \<and> snd m 2 = Some c \<and> snd m 3 = Some msg"
    using f(2) by simp
  ultimately show ?thesis using f(3) by blast
qed

text \<open>A text of the expected shape matches, whatever its parts are.\<close>

lemma in_Seq:
  "st1 \<in> set (backtrack r1 st) \<Longrightarrow> st2 \<in> set (backtrack r2 st1) \<Longrightarrow>
     st2 \<in> set (backtrack (Seq r1 r2) st)"
  by auto

lemma in_Lit: "(t, g) \<in> set (backtrack (Lit a) (a # t, g))"
  by (simp add: step_char_def)

lemma in_Star_Dot:
  assumes "newline \<notin> set p"
  shows "(t, g) \<in> set (backtrack (Star Dot) (p @ t, g))"
proof -
  have mem: "length p \<in> set (rev [0..<Suc (line_len (p @ t))])"
    using line_len_append_ge [OF assms, of t] by (simp del: upt_Suc)
  show ?thesis
    unfolding backtrack_Star_Dot set_map by (rule image_eqI [OF _ mem]) simp
qed

lemma in_Grp_Star_Dot:
  assumes "newline \<notin> set p"
  shows "(t, g(n \<mapsto> p)) \<in> set (backtrack (Grp n (Star Dot)) (p @ t, g))"
proof -
  have mem: "length p \<in> set (rev [0..<Suc (line_len (p @ t))])"
    using line_len_append_ge [OF assms, of t] by (simp del: upt_Suc)
  show ?thesis
    unfolding backtrack_Grp_Star_Dot set_map by (rule image_eqI [OF _ mem]) simp
qed

lemma in_seqs_Lit: "(t, g) \<in> set (backtrack (seqs (map Lit w)) (w @ t, g))"
  by (simp add: backtrack_seqs_Lit startswith_def)

lemma privmsg_matches:
  assumes "newline \<notin> set u" "newline \<notin> set a" "newline \<notin> set b"
    "newline \<notin> set c" "newline \<notin> set body"
  shows "backtrack privmsg_regex
           (58 # u @ 33 # a @ 64 # b @ (server_text @ [35]) @ c @ sp_colon @ body, g) \<noteq> []"
proof -
  note [simp del] = backtrack.simps
  have "([], g(1 \<mapsto> u, 2 \<mapsto> c, 3 \<mapsto> body)) \<in> set (backtrack privmsg_regex
           (58 # u @ 33 # a @ 64 # b @ (server_text @ [35]) @ c @ sp_colon @ body, g))"
    unfolding privmsg_regex_unfold
    apply (rule in_Seq [OF in_Lit])
    apply (rule in_Seq [OF in_Grp_Star_Dot [OF assms(1)]])
    apply (rule in_Seq [OF in_Lit])
    apply (rule in_Seq [OF in_Star_Dot [OF assms(2)]])
    apply (rule in_Seq [OF in_Lit])
    apply (rule in_Seq [OF in_Star_Dot [OF assms(3)]])
    apply (rule in_Seq [OF in_seqs_Lit])
    apply (rule in_Seq [OF in_Grp_Star_Dot [OF assms(4)]])
    apply (rule in_Seq [OF in_seqs_Lit])
    using in_Grp_Star_Dot [OF assms(5), of "[]" "g(1 \<mapsto> u, 2 \<mapsto> c)" 3]
    apply simp
    done
  then show ?thesis by auto
qed

lemma last_sep_unique:
  assumes "x @ sp_colon @ m = y @ sp_colon @ m'"
    and "\<nexists>a b. m = a @ sp_colon @ b" and "\<nexists>a b. m' = a @ sp_colon @ b"
  shows "m = m'"
proof -
  have one: "m1 = m2" if eq: "us @ sp_colon @ m1 = sp_colon @ m2"
    and no: "\<nexists>a b. m2 = a @ sp_colon @ b" for us m1 m2 :: ustr
  proof (cases us)
    case Nil
    with eq show ?thesis by simp
  next
    case (Cons c1 us1)
    show ?thesis
    proof (cases us1)
      case Nil
      with Cons eq show ?thesis by (simp add: sp_colon_def)
    next
      case (Cons c2 us2)
      with \<open>us = c1 # us1\<close> eq have "m2 = us2 @ sp_colon @ m1"
        by (simp add: sp_colon_def)
      with no show ?thesis by blast
    qed
  qed
  from iffD1 [OF append_eq_append_conv2 assms(1)] obtain us where
    "(x = y @ us \<and> us @ sp_colon @ m = sp_colon @ m') \<or>
     (x @ us = y \<and> sp_colon @ m = us @ sp_colon @ m')"
    by blast
  then show ?thesis
  proof
    assume "x = y @ us \<and> us @ sp_colon @ m = sp_colon @ m'"
    then show ?thesis using one [of us m m'] assms(3) by blast
  next
    assume "x @ us = y \<and> sp_colon @ m = us @ sp_colon @ m'"
    then have "us @ sp_colon @ m' = sp_colon @ m" by simp
    then show ?thesis using one [of us m' m] assms(2) by blast
  qed
qed

lemma search_first_position:
  assumes "backtrack r (x # xs, Map.empty) \<noteq> []"
  shows "\<exists>m ys. search r (x # xs) = Some m \<and> backtrack r (x # xs, Map.empty) = m # ys"
  using assms by (cases "backtrack r (x # xs, Map.empty)") (auto simp: match_def)

subsection \<open>Splitting at the em dash, joining and trimming\<close>

lemma split_from_single:
  "split_from [d] cur s =
     (cur @ takeWhile (\<lambda>c. c \<noteq> d) s)
     # (case dropWhile (\<lambda>c. c \<noteq> d) s of [] \<Rightarrow> [] | x # r \<Rightarrow> split_from [d] [] r)"
  by (induction s arbitrary: cur) (simp_all add: startswith_def)

lemma split_from_nonempty: "split_from sep cur s \<noteq> []"
  by (induction sep cur s rule: split_from.induct) auto

lemma join_Cons: "ys \<noteq> [] \<Longrightarrow> join sep (x # ys) = x @ sep @ join sep ys"
  by (cases ys) simp_all

lemma join_split_from: "join sep (split_from sep cur s) = cur @ s"
proof (induction sep cur s rule: split_from.induct)
  case (1 sep cur)
  show ?case by simp
next
  case (2 sep cur x xs)
  show ?case
  proof (cases "sep \<noteq> [] \<and> startswith (x # xs) sep")
    case True
    then have "x # xs = sep @ drop (length sep) (x # xs)"
      by (metis append_take_drop_id startswith_def)
    with 2(1) [OF True] True show ?thesis
      by (simp add: join_Cons split_from_nonempty del: join.simps)
  next
    case False
    with 2(2) [OF False] show ?thesis by auto
  qed
qed

lemma first_part: "index (split_from [emdash] [] line) 0 = Inr (before_sep line)"
  by (subst split_from_single) (simp add: index_def before_sep_def)

lemma rejoin_rest:
  "join [emdash] (slice_from (split_from [emdash] [] line) (Suc 0)) = after_sep line"
proof -
  have "slice_from (split_from [emdash] [] line) (Suc 0) =
          (case dropWhile (\<lambda>c. c \<noteq> emdash) line of
             [] \<Rightarrow> [] | x # r \<Rightarrow> split_from [emdash] [] r)"
    by (subst split_from_single) (simp add: slice_from_def)
  then show ?thesis
    by (simp add: after_sep_def join_split_from del: dropWhile_eq_Nil_conv split: list.split)
qed

lemma strip_keep:
  assumes "s \<noteq> []" "\<not> isspace (hd s)" "\<not> isspace (last s)"
  shows "strip s = s"
proof -
  from assms(1,2) have "dropWhile isspace s = s" by (cases s) auto
  moreover from assms(1,3) have "dropWhile isspace (rev s) = rev s"
    by (cases "rev s") (auto simp: hd_rev [symmetric] simp del: hd_rev)
  ultimately show ?thesis by (simp add: strip_def)
qed

lemma strip_lead: "isspace c \<Longrightarrow> strip (c # s) = strip s"
  by (simp add: strip_def)

lemma before_sep_append: "emdash \<notin> set ts \<Longrightarrow> before_sep (ts @ emdash # rest) = ts"
  by (induction ts) (auto simp: before_sep_def)

lemma after_sep_append: "emdash \<notin> set ts \<Longrightarrow> after_sep (ts @ emdash # rest) = rest"
  by (induction ts) (auto simp: after_sep_def)

subsection \<open>One record, and the loop over the records\<close>

lemma parse_record_alt:
  "parse_record line =
     (case strptime (strip (before_sep line)) of
        Inl e \<Rightarrow> Inl e
      | Inr t \<Rightarrow>
          (case search privmsg_regex (strip (after_sep line)) of
             None \<Rightarrow> Inl AttributeError
           | Some m \<Rightarrow>
               Inr [(''dt'', Datetime t), (''channel'', group_val m 2),
                    (''username'', group_val m 1), (''message'', group_val m 3)]))"
  by (simp add: parse_record_def split_def bind_err_def first_part rejoin_rest groups_of_3
           split: sum.splits option.splits)

lemma strptime_error: "strptime s = Inl e \<Longrightarrow> e = ValueError \<or> e = TypeError"
  by (auto simp: strptime_def bind_err_def group_int_def py_int_def make_datetime_def Let_def
           split: option.splits if_splits sum.splits)

lemma strptime_valid: "strptime s = Inr t \<Longrightarrow> valid_datetime t"
  by (auto simp: strptime_def bind_err_def make_datetime_def Let_def
           split: option.splits if_splits sum.splits)

lemma parse_record_error: "parse_record line = Inl e \<Longrightarrow> is_Exception e"
  by (auto simp: parse_record_alt split: sum.splits option.splits dest: strptime_error)

lemma parse_lines_rows:
  "parse_lines data lines = Inr (data @ List.map_filter row_of lines)"
proof (induction lines arbitrary: data)
  case Nil
  show ?case by simp
next
  case (Cons l lines)
  show ?case
  proof (cases "parse_record l")
    case (Inl e)
    then show ?thesis
      using parse_record_error [OF Inl] Cons.IH
      by (simp add: row_of_def)
  next
    case (Inr d)
    then show ?thesis using Cons.IH by (simp add: row_of_def)
  qed
qed

lemma row_of_shape:
  assumes "row_of line = Some d"
  shows "\<exists>t u c m. d = [(''dt'', Datetime t), (''channel'', Str c),
                          (''username'', Str u), (''message'', Str m)]
           \<and> strptime (strip (before_sep line)) = Inr t \<and> valid_datetime t
           \<and> newline \<notin> set u \<and> newline \<notin> set c \<and> newline \<notin> set m"
proof -
  from assms obtain t where t: "strptime (strip (before_sep line)) = Inr t"
    by (auto simp: row_of_def parse_record_alt split: sum.splits)
  with assms obtain m where m: "search privmsg_regex (strip (after_sep line)) = Some m"
    and d: "d = [(''dt'', Datetime t), (''channel'', group_val m 2),
                    (''username'', group_val m 1), (''message'', group_val m 3)]"
    by (auto simp: row_of_def parse_record_alt split: option.splits)
  from search_privmsg [OF m] obtain u c msg where
    "snd m 1 = Some u" "snd m 2 = Some c" "snd m 3 = Some msg"
    "newline \<notin> set u" "newline \<notin> set c" "newline \<notin> set msg"
    by blast
  with d t strptime_valid [OF t] show ?thesis by (simp add: group_val_def)
qed

lemma body_kept:
  assumes ts: "emdash \<notin> set ts" "strptime (strip ts) = Inr t"
    and nl: "newline \<notin> set user" "newline \<notin> set a" "newline \<notin> set b"
      "newline \<notin> set chan" "newline \<notin> set body"
    and body: "\<nexists>x y. body = x @ ascii '' :'' @ y" "body = [] \<or> \<not> isspace (last body)"
  shows "\<exists>u c. parse_record
           (ts @ [emdash] @ ascii '' :'' @ user @ ascii ''!'' @ a @ ascii ''@'' @ b
              @ ascii ''.tmi.twitch.tv PRIVMSG #'' @ chan @ ascii '' :'' @ body) =
           Inr [(''dt'', Datetime t), (''channel'', Str c), (''username'', Str u),
                (''message'', Str body)]"
proof -
  define um where
    "um = 58 # user @ 33 # a @ 64 # b @ (server_text @ [35]) @ chan @ sp_colon @ body"
  define line where "line = ts @ emdash # 32 # um"
  have line_eq: "ts @ [emdash] @ ascii '' :'' @ user @ ascii ''!'' @ a @ ascii ''@'' @ b
              @ ascii ''.tmi.twitch.tv PRIVMSG #'' @ chan @ ascii '' :'' @ body = line"
    by (simp add: line_def um_def ascii_def server_text_def sp_colon_def)
  have no_nl: "newline \<notin> set um"
    using nl by (simp add: um_def server_text_def sp_colon_def ascii_def newline_def)
  have "last um = (if body = [] then 58 else last body)"
    by (simp add: um_def sp_colon_def)
  then have "\<not> isspace (last um)"
    using body(2) by (auto simp: isspace_def)
  moreover have "\<not> isspace (hd um)" "um \<noteq> []" "isspace 32"
    by (simp_all add: um_def isspace_def)
  ultimately have strip_um: "strip (after_sep line) = um"
    using ts(1) by (simp add: line_def after_sep_append strip_lead strip_keep)
  have before: "before_sep line = ts"
    using ts(1) by (simp add: line_def before_sep_append)
  have "backtrack privmsg_regex (um, Map.empty) \<noteq> []"
    unfolding um_def using nl by (rule privmsg_matches)
  then obtain m ys where m: "search privmsg_regex um = Some m"
    and first: "backtrack privmsg_regex (um, Map.empty) = m # ys"
    unfolding um_def using search_first_position by blast
  from privmsg_first [OF first [unfolded um_def] ] obtain u mid c msg post where
    f: "um = [58] @ u @ [33] @ mid @ [35] @ c @ sp_colon @ msg @ post"
       "m = (post, [1 \<mapsto> u, 2 \<mapsto> c, 3 \<mapsto> msg])"
       "post = [] \<or> hd post = newline" "\<nexists>x y. msg = x @ sp_colon @ y"
    unfolding um_def by blast
  have "post = []"
  proof (rule ccontr)
    assume "post \<noteq> []"
    with f(3) have "newline \<in> set post" by (metis hd_in_set)
    with f(1) no_nl show False by simp
  qed
  with f(1) have eq: "([58] @ u @ [33] @ mid @ [35] @ c) @ sp_colon @ msg
      = (58 # user @ 33 # a @ 64 # b @ (server_text @ [35]) @ chan) @ sp_colon @ body"
    by (simp add: um_def)
  have "\<nexists>x y. body = x @ sp_colon @ y"
    using body(1) by (simp add: ascii_def sp_colon_def)
  with eq f(4) have "msg = body" by (rule last_sep_unique)
  with f(2) have "parse_record line =
      Inr [(''dt'', Datetime t), (''channel'', Str c), (''username'', Str u),
           (''message'', Str body)]"
    by (simp add: parse_record_alt before strip_um ts(2) m group_val_def)
  then show ?thesis unfolding line_eq by blast
qed

lemma get_chat_dataframe_rows:
  "read_text file = Inr text \<Longrightarrow>
     get_chat_dataframe file = Inr (List.map_filter row_of (records text))"
  by (simp add: get_chat_dataframe_def bind_err_def split_def parse_lines_rows records_def)

lemma get_chat_dataframe_read:
  "get_chat_dataframe file = Inr rows \<Longrightarrow> \<exists>text. read_text file = Inr text"
  by (cases "read_text file") (simp_all add: get_chat_dataframe_def bind_err_def)

lemma map_filter_row_of:
  "d \<in> set (List.map_filter row_of ls) \<Longrightarrow> \<exists>l \<in> set ls. row_of l = Some d"
  by (induction ls) (auto split: option.splits)

lemma dropped_record:
  assumes "(\<exists>e. strptime (strip (before_sep line)) = Inl e)
           \<or> search privmsg_regex (strip (after_sep line)) = None"
  shows "parse_lines data (line # lines) = parse_lines data lines"
proof -
  have "\<exists>e. parse_record line = Inl e"
    using assms
  proof
    assume "\<exists>e. strptime (strip (before_sep line)) = Inl e"
    then show ?thesis by (auto simp: parse_record_alt)
  next
    assume "search privmsg_regex (strip (after_sep line)) = None"
    then show ?thesis by (simp add: parse_record_alt split: sum.splits)
  qed
  then obtain e where e: "parse_record line = Inl e" ..
  from parse_record_error [OF e] e show ?thesis by simp
qed

subsection \<open>A call, and the store it leaves\<close>

lemma for_lines_rows:
  "a < length (list_objects s) \<Longrightarrow>
     for_lines a lines s =
       (Inr (), s\<lparr>list_objects :=
                   (list_objects s)[a := list_objects s ! a @ List.map_filter row_of lines]\<rparr>)"
proof (induction lines arbitrary: s)
  case Nil
  show ?case by (simp add: List.map_filter_def)
next
  case (Cons l lines)
  show ?case
  proof (cases "parse_record l")
    case (Inl e)
    then show ?thesis
      using parse_record_error [OF Inl] Cons.IH [OF Cons.prems]
      by (simp add: row_of_def List.map_filter_def)
  next
    case (Inr d)
    have "a < length (list_objects (list_append a d s))"
      using Cons.prems by (simp add: list_append_def)
    from Cons.IH [OF this] Inr Cons.prems show ?thesis
      by (simp add: row_of_def List.map_filter_def list_append_def)
  qed
qed

lemma call_missing:
  "files s file = None \<Longrightarrow>
     call_get_chat_dataframe file s = (Inl OSError, s\<lparr>list_objects := list_objects s @ [[]]\<rparr>)"
  by (simp add: call_get_chat_dataframe_def new_list_def open_read_def)

lemma call_present:
  assumes "files s file = Some content"
  shows "call_get_chat_dataframe file s =
     (get_chat_dataframe content,
      s\<lparr>file_objects :=
          file_objects s @ [\<lparr>fpath = file, fpos = length content, fclosed = True\<rparr>],
        list_objects :=
          list_objects s @ [case get_chat_dataframe content of Inl e \<Rightarrow> [] | Inr rows \<Rightarrow> rows]\<rparr>)"
proof (cases "read_text content")
  case (Inl e)
  then show ?thesis
    using assms
    by (simp add: call_get_chat_dataframe_def new_list_def open_read_def with_body_def
          read_all_def close_file_def get_chat_dataframe_def bind_err_def)
next
  case (Inr decoded)
  have g: "get_chat_dataframe content = Inr (List.map_filter row_of (records decoded))"
    using Inr by (rule get_chat_dataframe_rows)
  show ?thesis
    using assms Inr
    by (simp add: g call_get_chat_dataframe_def new_list_def open_read_def with_body_def
          read_all_def close_file_def split_def records_def for_lines_rows nth_append)
qed

lemma call_files: "files (snd (call_get_chat_dataframe file s)) = files s"
  by (cases "files s file") (simp_all add: call_missing call_present)

lemma call_result:
  "fst (call_get_chat_dataframe file s) =
     (case files s file of None \<Rightarrow> Inl OSError | Some content \<Rightarrow> get_chat_dataframe content)"
  by (cases "files s file") (simp_all add: call_missing call_present)

subsection \<open>The receive loop\<close>

lemma loop_body_recvs: "recvs (snd (loop_body d e w)) = Suc (recvs w)"
  by (simp add: loop_body_def sock_send_def logging_info_def
           split: recv_outcome.splits sum.splits)

lemma loop_body_ping:
  assumes "recv_at e (recvs w) = Received chunk" "utf8_decode chunk = Inr resp"
    "startswith resp (ascii ''PING'')"
  shows "loop_body d e w =
     (send_at e (length (send_calls w)),
      w\<lparr>recvs := Suc (recvs w), send_calls := send_calls w @ [ascii_bytes ''PONG'' @ [10]]\<rparr>)"
  using assms by (simp add: loop_body_def sock_send_def)

lemma loop_body_log:
  assumes "recv_at e (recvs w) = Received chunk" "utf8_decode chunk = Inr resp"
    "\<not> startswith resp (ascii ''PING'')" "resp \<noteq> []"
  shows "loop_body d e w =
     (None, w\<lparr>recvs := Suc (recvs w),
                 log := log w @ [log_entry (clock_at e (length (log w))) (d resp)]\<rparr>)"
  using assms by (simp add: loop_body_def logging_info_def)

lemma loop_body_empty:
  assumes "recv_at e (recvs w) = Received []"
  shows "loop_body d e w = (None, w\<lparr>recvs := Suc (recvs w)\<rparr>)"
  using assms by (simp add: loop_body_def startswith_def ascii_def)

lemma loop_body_raises:
  assumes "recv_at e (recvs w) = RecvRaises err"
  shows "loop_body d e w = (Some err, w\<lparr>recvs := Suc (recvs w)\<rparr>)"
  using assms by (simp add: loop_body_def)

lemma loop_ends_by_exception:
  assumes "receive_loop d e w = Some r"
  shows "\<exists>w0. fst (loop_body d e w0) = Some (fst r) \<and> snd (loop_body d e w0) = snd r"
proof (rule receive_loop.raw_induct
    [where P = "\<lambda>d e w r. \<exists>w0. fst (loop_body d e w0) = Some (fst r)
                                \<and> snd (loop_body d e w0) = snd r", OF _ assms])
  fix loop d e w r
  assume IH: "\<And>d e w r. loop d e w = Some r \<Longrightarrow>
      \<exists>w0. fst (loop_body d e w0) = Some (fst r) \<and> snd (loop_body d e w0) = snd r"
    and step: "(case fst (loop_body d e w) of
                  None \<Rightarrow> loop d e (snd (loop_body d e w))
                | Some err \<Rightarrow> Some (err, snd (loop_body d e w))) = Some r"
  show "\<exists>w0. fst (loop_body d e w0) = Some (fst r) \<and> snd (loop_body d e w0) = snd r"
  proof (cases "fst (loop_body d e w)")
    case None
    with step have "loop d e (snd (loop_body d e w)) = Some r" by simp
    then show ?thesis by (rule IH)
  next
    case (Some err)
    with step have "r = (err, snd (loop_body d e w))" by simp
    with Some show ?thesis by auto
  qed
qed

lemma loop_not_returning:
  assumes "receive_loop d e w = Some r"
  shows "\<not> (\<forall>n\<ge>recvs w. recv_at e n = Received [])"
proof (rule receive_loop.raw_induct
    [where P = "\<lambda>d e w r. \<not> (\<forall>n\<ge>recvs w. recv_at e n = Received [])", OF _ assms])
  fix loop d e w r
  assume IH: "\<And>d e w r. loop d e w = Some r \<Longrightarrow>
      \<not> (\<forall>n\<ge>recvs w. recv_at e n = Received [])"
    and step: "(case fst (loop_body d e w) of
                  None \<Rightarrow> loop d e (snd (loop_body d e w))
                | Some err \<Rightarrow> Some (err, snd (loop_body d e w))) = Some r"
  show "\<not> (\<forall>n\<ge>recvs w. recv_at e n = Received [])"
  proof
    assume closed: "\<forall>n\<ge>recvs w. recv_at e n = Received []"
    then have body: "loop_body d e w = (None, w\<lparr>recvs := Suc (recvs w)\<rparr>)"
      by (simp add: loop_body_empty)
    with step have "loop d e (w\<lparr>recvs := Suc (recvs w)\<rparr>) = Some r" by simp
    from IH [OF this] closed show False by simp
  qed
qed

lemma loop_forever: "\<forall>n\<ge>recvs w. recv_at e n = Received [] \<Longrightarrow> receive_loop d e w = None"
  using loop_not_returning [of d e w] by (cases "receive_loop d e w") auto

lemma loop_terminates:
  assumes "recv_at e n = RecvRaises err" "recvs w \<le> n"
  shows "\<exists>r. receive_loop d e w = Some r"
  using assms(2)
proof (induction "n - recvs w" arbitrary: w)
  case 0
  then have "recvs w = n" by simp
  with assms(1) have "loop_body d e w = (Some err, w\<lparr>recvs := Suc (recvs w)\<rparr>)"
    by (simp add: loop_body_raises)
  then show ?case by (subst receive_loop.simps) simp
next
  case (Suc k)
  show ?case
  proof (cases "fst (loop_body d e w)")
    case None
    have "k = n - recvs (snd (loop_body d e w))" "recvs (snd (loop_body d e w)) \<le> n"
      using Suc(2,3) by (simp_all add: loop_body_recvs)
    from Suc(1) [OF this] obtain r where "receive_loop d e (snd (loop_body d e w)) = Some r" ..
    with None show ?thesis by (subst receive_loop.simps) simp
  next
    case (Some err')
    then show ?thesis by (subst receive_loop.simps) simp
  qed
qed

subsection \<open>The examples, evaluated\<close>

lemmas eval_defs =
  read_text_def ascii_bytes_def ascii_def emdash_def newline_def in_range_def is_cont_def
  cont_bits_def cons_char_def strptime_def strptime_regex_def match_def step_char_def
  ch_def isdecimal_def decimal_value_def decimal_zeros_def group_int_def py_int_def
  strip_def isspace_def digit_of_def make_datetime_def valid_datetime_def
  days_in_month_def is_leap_def bind_err_def get_chat_dataframe_def split_def
  startswith_def parse_record_def index_def slice_from_def privmsg_regex_def lits_def
  groups_of_3 group_val_def logged_at_def

lemma one_record_read: "read_text one_record_log = Inr one_record_text"
  by (simp add: one_record_log_def one_record_text_def one_record_line_def eval_defs)

lemma one_record_rows: "get_chat_dataframe one_record_log = Inr [one_record_row]"
  by (simp add: one_record_log_def one_record_row_def eval_defs)

lemma empty_fields_rows:
  "get_chat_dataframe empty_fields_log =
     Inr [[(''dt'', Datetime logged_at), (''channel'', Str []),
           (''username'', Str []), (''message'', Str [])]]"
  by (simp add: empty_fields_log_def eval_defs)

lemma extra_token_rows:
  "strptime (first_token extra_token_text) = Inr logged_at
   \<and> read_text extra_token_log = Inr extra_token_text
   \<and> get_chat_dataframe extra_token_log = Inr []"
  by (simp add: extra_token_log_def extra_token_text_def first_token_def eval_defs)

lemma dash_colon_rows:
  "get_chat_dataframe dash_colon_log =
     Inr [[(''dt'', Datetime logged_at),
           (''channel'', Str (ascii ''ninja :a '' @ [emdash] @ ascii '' b'')),
           (''username'', Str (ascii ''alice'')), (''message'', Str (ascii ''c''))]]"
  by (simp add: dash_colon_log_def eval_defs)

lemma colon_body_rows:
  "get_chat_dataframe colon_body_log =
     Inr [[(''dt'', Datetime logged_at), (''channel'', Str (ascii ''ninja :see this'')),
           (''username'', Str (ascii ''alice'')), (''message'', Str (ascii ''wow''))]]"
  by (simp add: colon_body_log_def eval_defs)

lemmas loop_eval_defs =
  loop_body_def const_env_def world0_def sock_send_def logging_info_def log_entry_def
  strftime_def digit2_def digit4_def logged_at_def startswith_def ascii_def ascii_bytes_def
  in_range_def is_cont_def cont_bits_def cons_char_def emdash_def newline_def

lemma dash_body_rows:
  "get_chat_dataframe dash_body_log =
     Inr [[(''dt'', Datetime logged_at), (''channel'', Str (ascii ''ninja'')),
           (''username'', Str (ascii ''alice'')), (''message'', Str dash_body)]]"
  by (simp add: dash_body_log_def dash_body_def eval_defs)

lemma dash_colon_read: "read_text dash_colon_log = Inr dash_colon_line"
  by (simp add: dash_colon_log_def dash_colon_line_def eval_defs)

lemma dash_colon_rejoin:
  "join [emdash] (slice_from (split_from [emdash] [] dash_colon_line) 1) =
     ascii '' :alice!alice@alice.tmi.twitch.tv PRIVMSG #ninja :a '' @ [emdash] @ ascii '' b :c''"
proof -
  have "join [emdash] (slice_from (split_from [emdash] [] dash_colon_line) (Suc 0)) =
          after_sep dash_colon_line"
    by (rule rejoin_rest)
  also have "\<dots> = ascii '' :alice!alice@alice.tmi.twitch.tv PRIVMSG #ninja :a '' @ [emdash]
      @ ascii '' b :c''"
    by (simp add: after_sep_def dash_colon_line_def ascii_def emdash_def)
  finally show ?thesis by (simp only: One_nat_def)
qed

lemma one_record_records: "records one_record_text = [one_record_line] @ [[]]"
  by (simp add: records_def one_record_text_def one_record_line_def startswith_def
        ascii_def emdash_def newline_def)

lemma first_call:
  "call_get_chat_dataframe ''chat.log'' machine0 = (Inr [one_record_row], machine1)"
proof -
  have "files machine0 ''chat.log'' = Some one_record_log" by (simp add: machine0_def)
  from call_present [OF this] show ?thesis
    by (simp add: one_record_rows machine0_def machine1_def)
qed

lemma second_call:
  "call_get_chat_dataframe ''chat.log'' machine1 = (Inr [one_record_row], machine2)"
proof -
  have "files machine1 ''chat.log'' = Some one_record_log"
    by (simp add: machine0_def machine1_def)
  from call_present [OF this] show ?thesis
    by (simp add: one_record_rows machine0_def machine1_def machine2_def)
qed

section \<open>The claims\<close>

text \<open>
  C1.  A log file whose whole content is the record \<open>2018-12-10_11:26:40\<close>, space, em
  dash, \<open> :alice!alice@alice.tmi.twitch.tv PRIVMSG #ninja :hello world\<close> and three
  newlines gives exactly one row: the timestamp 2018-12-10 11:26:40, the channel
  \<open>ninja\<close>, the username \<open>alice\<close> and the message \<open>hello world\<close>.
\<close>

theorem one_record_roundtrip:
  "get_chat_dataframe one_record_log =
     Inr [[(''dt'', Datetime \<lparr>year = 2018, month = 12, day = 10,
                               hour = 11, minute = 26, second = 40\<rparr>),
           (''channel'', Str (ascii ''ninja'')),
           (''username'', Str (ascii ''alice'')),
           (''message'', Str (ascii ''hello world''))]]"
  using one_record_rows by (simp add: one_record_row_def logged_at_def)

text \<open>
  C2, amended.  For every file content that decodes as UTF-8, \<open>get_chat_dataframe\<close>
  returns and does not raise: the result holds, in the order of the records, the row of
  every record whose \<open>try\<close> block ran to its end, every other record is dropped, and
  every row has the four keys \<open>dt\<close>, \<open>channel\<close>, \<open>username\<close> and \<open>message\<close> with a
  datetime and three strings.
\<close>

theorem decodable_log_never_raises:
  assumes "read_text file = Inr text"
  shows "get_chat_dataframe file = Inr (List.map_filter row_of (records text))
         \<and> (\<forall>d \<in> set (List.map_filter row_of (records text)).
               \<exists>t u c m. d = [(''dt'', Datetime t), (''channel'', Str c),
                               (''username'', Str u), (''message'', Str m)])"
proof
  show "get_chat_dataframe file = Inr (List.map_filter row_of (records text))"
    using assms by (rule get_chat_dataframe_rows)
  show "\<forall>d \<in> set (List.map_filter row_of (records text)).
          \<exists>t u c m. d = [(''dt'', Datetime t), (''channel'', Str c),
                          (''username'', Str u), (''message'', Str m)]"
  proof
    fix d assume "d \<in> set (List.map_filter row_of (records text))"
    then obtain l where "row_of l = Some d" by (blast dest: map_filter_row_of)
    from row_of_shape [OF this] show "\<exists>t u c m. d = [(''dt'', Datetime t), (''channel'', Str c),
                          (''username'', Str u), (''message'', Str m)]" by blast
  qed
qed

theorem decodable_log_never_raises_witness:
  "read_text one_record_log = Inr one_record_text
   \<and> get_chat_dataframe one_record_log = Inr (List.map_filter row_of (records one_record_text))
   \<and> (\<exists>t u c m. one_record_row = [(''dt'', Datetime t), (''channel'', Str c),
                                      (''username'', Str u), (''message'', Str m)])"
proof -
  note k = decodable_log_never_raises [OF one_record_read]
  from k one_record_rows
  have "List.map_filter row_of (records one_record_text) = [one_record_row]" by simp
  then have "one_record_row \<in> set (List.map_filter row_of (records one_record_text))"
    by simp
  with k have "\<exists>t u c m. one_record_row = [(''dt'', Datetime t), (''channel'', Str c),
                                      (''username'', Str u), (''message'', Str m)]"
    by blast
  with k one_record_read show ?thesis by blast
qed

text \<open>
  A file that is not UTF-8: \<open>f.read()\<close> stands outside the \<open>try\<close> block, and its
  \<open>UnicodeDecodeError\<close> leaves the function.
\<close>

theorem undecodable_log_raises: "get_chat_dataframe [255] = Inl UnicodeDecodeError"
  by (simp add: get_chat_dataframe_def read_text_def bind_err_def in_range_def)

text \<open>
  C3, amended.  For every received chunk that decodes as UTF-8 to a text that is not
  empty and does not start with \<open>PING\<close>, the round appends exactly one entry to the log
  and sends nothing; the entry is the time, the separator, the text that \<open>demojize\<close> makes
  of the chunk's text, and a newline.  It holds the chunk's text verbatim when
  \<open>demojize\<close> leaves that text as it is.
\<close>

theorem chunk_logged_once:
  assumes "recv_at e (recvs w) = Received chunk" "utf8_decode chunk = Inr resp"
    "resp \<noteq> []" "\<not> startswith resp (ascii ''PING'')"
  shows "fst (loop_body demojize e w) = None
     \<and> log (snd (loop_body demojize e w)) =
         log w @ [strftime (clock_at e (length (log w))) @ ascii '' '' @ [emdash] @ ascii '' ''
                  @ demojize resp @ [newline]]
     \<and> send_calls (snd (loop_body demojize e w)) = send_calls w
     \<and> (demojize resp = resp \<longrightarrow>
          (\<exists>x y. last (log (snd (loop_body demojize e w))) = x @ resp @ y))"
proof -
  have body: "loop_body demojize e w =
     (None, w\<lparr>recvs := Suc (recvs w),
                 log := log w @ [log_entry (clock_at e (length (log w))) (demojize resp)]\<rparr>)"
    by (rule loop_body_log [OF assms(1,2,4,3)])
  have 1: "fst (loop_body demojize e w) = None"
    by (simp only: body fst_conv)
  have 2: "log (snd (loop_body demojize e w)) =
         log w @ [strftime (clock_at e (length (log w))) @ ascii '' '' @ [emdash] @ ascii '' ''
                  @ demojize resp @ [newline]]"
    by (simp only: body snd_conv log_entry_def) simp
  have 3: "send_calls (snd (loop_body demojize e w)) = send_calls w"
    by (simp only: body snd_conv) simp
  have 4: "demojize resp = resp \<longrightarrow>
          (\<exists>x y. last (log (snd (loop_body demojize e w))) = x @ resp @ y)"
  proof
    assume d: "demojize resp = resp"
    have "last (log (snd (loop_body demojize e w))) =
        (strftime (clock_at e (length (log w))) @ ascii '' '' @ [emdash] @ ascii '' '')
        @ resp @ [newline]"
      by (simp only: 2 d last_snoc append_assoc)
    then show "\<exists>x y. last (log (snd (loop_body demojize e w))) = x @ resp @ y"
      by blast
  qed
  from 1 2 3 4 show ?thesis by (intro conjI)
qed

lemma hello_decoded: "utf8_decode hello_chunk = Inr hello_text"
  by (simp add: hello_chunk_def hello_text_def loop_eval_defs)

lemma hello_plain:
  "hello_text \<noteq> [] \<and> \<not> startswith hello_text (ascii ''PING'')
   \<and> demojize_sample hello_text = hello_text"
  by (simp add: demojize_sample_def startswith_def hello_text_def ascii_def)

theorem chunk_logged_once_witness:
  "recv_at (const_env (Received hello_chunk)) (recvs world0) = Received hello_chunk
   \<and> utf8_decode hello_chunk = Inr hello_text
   \<and> fst (loop_body demojize_sample (const_env (Received hello_chunk)) world0) = None
   \<and> log (snd (loop_body demojize_sample (const_env (Received hello_chunk)) world0)) =
        log world0 @
        [strftime (clock_at (const_env (Received hello_chunk)) (length (log world0)))
         @ ascii '' '' @ [emdash] @ ascii '' '' @ demojize_sample hello_text @ [newline]]
   \<and> send_calls (snd (loop_body demojize_sample (const_env (Received hello_chunk)) world0))
       = send_calls world0
   \<and> (\<exists>x y. last (log (snd (loop_body demojize_sample (const_env (Received hello_chunk)) world0)))
          = x @ hello_text @ y)"
proof -
  have r: "recv_at (const_env (Received hello_chunk)) (recvs world0) = Received hello_chunk"
    by (simp add: const_env_def)
  note k = chunk_logged_once [OF r hello_decoded hello_plain [THEN conjunct1]
      hello_plain [THEN conjunct2, THEN conjunct1], of demojize_sample]
  from k [THEN conjunct2, THEN conjunct2, THEN conjunct2]
    hello_plain [THEN conjunct2, THEN conjunct2]
  have "\<exists>x y. last (log (snd (loop_body demojize_sample (const_env (Received hello_chunk)) world0)))
          = x @ hello_text @ y"
    by (rule mp)
  with k r hello_decoded show ?thesis by (intro conjI) blast+
qed

text \<open>
  A chunk that is one thumbs-up sign: the entry holds \<open>:thumbs_up:\<close> and the sign itself
  is nowhere in it.
\<close>

theorem emoji_not_logged_verbatim:
  "utf8_decode thumbs_up_chunk = Inr [128077]
   \<and> log (snd (loop_body demojize_sample (const_env (Received thumbs_up_chunk)) world0)) =
       [ascii ''2018-12-10_11:26:40 '' @ [emdash] @ ascii '' :thumbs_up:'' @ [newline]]
   \<and> 128077 \<notin> set (ascii ''2018-12-10_11:26:40 '' @ [emdash] @ ascii '' :thumbs_up:''
                      @ [newline])"
  by (simp add: thumbs_up_chunk_def demojize_sample_def loop_eval_defs)

text \<open>
  C4, amended.  For every received chunk that decodes as UTF-8 to a text that starts
  with \<open>PING\<close>, the round passes exactly the five bytes of \<open>PONG\<close> and a newline to one
  \<open>sock.send\<close> call and appends nothing to the log; the round raises only what that call
  raises.
\<close>

theorem ping_answered:
  assumes "recv_at e (recvs w) = Received chunk" "utf8_decode chunk = Inr resp"
    "startswith resp (ascii ''PING'')"
  shows "send_calls (snd (loop_body demojize e w)) = send_calls w @ [ascii_bytes ''PONG'' @ [10]]
     \<and> log (snd (loop_body demojize e w)) = log w
     \<and> fst (loop_body demojize e w) = send_at e (length (send_calls w))"
  using loop_body_ping [OF assms] by simp

lemma ping_decoded:
  "utf8_decode ping_chunk = Inr (ascii ''PING :tmi.twitch.tv'' @ [13, 10])
   \<and> startswith (ascii ''PING :tmi.twitch.tv'' @ [13, 10]) (ascii ''PING'')"
  by (simp add: ping_chunk_def loop_eval_defs)

theorem ping_answered_witness:
  "recv_at (const_env (Received ping_chunk)) (recvs world0) = Received ping_chunk
   \<and> utf8_decode ping_chunk = Inr (ascii ''PING :tmi.twitch.tv'' @ [13, 10])
   \<and> startswith (ascii ''PING :tmi.twitch.tv'' @ [13, 10]) (ascii ''PING'')
   \<and> send_calls (snd (loop_body demojize_sample (const_env (Received ping_chunk)) world0)) =
        [ascii_bytes ''PONG'' @ [10]]
   \<and> log (snd (loop_body demojize_sample (const_env (Received ping_chunk)) world0)) = []
   \<and> fst (loop_body demojize_sample (const_env (Received ping_chunk)) world0) = None"
proof -
  have r: "recv_at (const_env (Received ping_chunk)) (recvs world0) = Received ping_chunk"
    by (simp add: const_env_def)
  from ping_answered [OF r ping_decoded [THEN conjunct1] ping_decoded [THEN conjunct2],
      of demojize_sample] r ping_decoded
  show ?thesis by (simp add: world0_def const_env_def)
qed

text \<open>
  A chunk of \<open>PING\<close> and a byte that is not UTF-8: \<open>decode\<close> raises before the test, and
  nothing is sent.
\<close>

theorem garbled_ping_unanswered:
  "take 4 garbled_ping_chunk = ascii_bytes ''PING''
   \<and> loop_body demojize_sample (const_env (Received garbled_ping_chunk)) world0 =
       (Some UnicodeDecodeError, \<lparr>recvs = 1, send_calls = [], log = []\<rparr>)"
  by (simp add: garbled_ping_chunk_def loop_eval_defs)

text \<open>
  C5, amended.  Every row that \<open>get_chat_dataframe\<close> returns has a timestamp that
  \<open>strptime\<close> read under \<open>%Y-%m-%d_%H:%M:%S\<close> from the trimmed text before the first em
  dash of a record, a valid date and time, and a username, a channel and a message that
  are strings without a newline; any of the three may be empty.  A record whose timestamp
  does not parse or whose text does not match the pattern adds no row.
\<close>

theorem emitted_row_invariant:
  "(get_chat_dataframe file = Inr rows \<and> d \<in> set rows \<longrightarrow>
      (\<exists>decoded line t u c m.
          read_text file = Inr decoded \<and> line \<in> set (records decoded)
          \<and> d = [(''dt'', Datetime t), (''channel'', Str c), (''username'', Str u),
                 (''message'', Str m)]
          \<and> strptime (strip (before_sep line)) = Inr t \<and> valid_datetime t
          \<and> newline \<notin> set u \<and> newline \<notin> set c \<and> newline \<notin> set m))
   \<and> ((\<exists>e. strptime (strip (before_sep line')) = Inl e)
        \<or> search privmsg_regex (strip (after_sep line')) = None \<longrightarrow>
        parse_lines data (line' # lines) = parse_lines data lines)"
proof (intro conjI impI)
  assume a: "get_chat_dataframe file = Inr rows \<and> d \<in> set rows"
  then obtain decoded where r: "read_text file = Inr decoded"
    by (blast dest: get_chat_dataframe_read)
  from get_chat_dataframe_rows [OF this] a
  have "d \<in> set (List.map_filter row_of (records decoded))" by simp
  then obtain l where l: "l \<in> set (records decoded)" "row_of l = Some d"
    by (blast dest: map_filter_row_of)
  from row_of_shape [OF l(2)] obtain t u c m where
    "d = [(''dt'', Datetime t), (''channel'', Str c), (''username'', Str u),
          (''message'', Str m)]"
    "strptime (strip (before_sep l)) = Inr t" "valid_datetime t"
    "newline \<notin> set u" "newline \<notin> set c" "newline \<notin> set m"
    by blast
  with r l(1)
  show "\<exists>decoded line t u c m.
          read_text file = Inr decoded \<and> line \<in> set (records decoded)
          \<and> d = [(''dt'', Datetime t), (''channel'', Str c), (''username'', Str u),
                 (''message'', Str m)]
          \<and> strptime (strip (before_sep line)) = Inr t \<and> valid_datetime t
          \<and> newline \<notin> set u \<and> newline \<notin> set c \<and> newline \<notin> set m"
    by blast
next
  assume "(\<exists>e. strptime (strip (before_sep line')) = Inl e)
        \<or> search privmsg_regex (strip (after_sep line')) = None"
  then show "parse_lines data (line' # lines) = parse_lines data lines"
    by (rule dropped_record)
qed

lemma not_a_date: "strptime (strip (before_sep (ascii ''not-a-date''))) = Inl ValueError"
  by (simp add: before_sep_def eval_defs)

theorem emitted_row_invariant_witness:
  "get_chat_dataframe one_record_log = Inr [one_record_row]
   \<and> (\<exists>decoded line t u c m.
        read_text one_record_log = Inr decoded \<and> line \<in> set (records decoded)
        \<and> one_record_row =
            [(''dt'', Datetime t), (''channel'', Str c), (''username'', Str u),
             (''message'', Str m)]
        \<and> strptime (strip (before_sep line)) = Inr t \<and> valid_datetime t
        \<and> newline \<notin> set u \<and> newline \<notin> set c \<and> newline \<notin> set m)
   \<and> strptime (strip (before_sep (ascii ''not-a-date''))) = Inl ValueError
   \<and> parse_lines [] [ascii ''not-a-date''] = parse_lines [] []"
proof -
  note inv = emitted_row_invariant
    [of one_record_log "[one_record_row]" one_record_row "ascii ''not-a-date''" "[]" "[]"]
  have 1: "get_chat_dataframe one_record_log = Inr [one_record_row]
           \<and> one_record_row \<in> set [one_record_row]"
    using one_record_rows by simp
  have 2: "(\<exists>e. strptime (strip (before_sep (ascii ''not-a-date''))) = Inl e)
           \<or> search privmsg_regex (strip (after_sep (ascii ''not-a-date''))) = None"
    using not_a_date by blast
  from inv [THEN conjunct1] 1
  have "\<exists>decoded line t u c m.
        read_text one_record_log = Inr decoded \<and> line \<in> set (records decoded)
        \<and> one_record_row =
            [(''dt'', Datetime t), (''channel'', Str c), (''username'', Str u),
             (''message'', Str m)]
        \<and> strptime (strip (before_sep line)) = Inr t \<and> valid_datetime t
        \<and> newline \<notin> set u \<and> newline \<notin> set c \<and> newline \<notin> set m"
    by (rule mp)
  moreover from inv [THEN conjunct2] 2
  have "parse_lines [] [ascii ''not-a-date''] = parse_lines [] []"
    by (rule mp)
  ultimately show ?thesis using 1 not_a_date by blast
qed

text \<open>
  The record \<open>2018-12-10_11:26:40\<close>, space, em dash, \<open> :!@.tmi.twitch.tv PRIVMSG # :\<close>
  gives a row whose username, channel and message are all empty.
\<close>

theorem empty_fields_emitted:
  "get_chat_dataframe empty_fields_log =
     Inr [[(''dt'', Datetime logged_at), (''channel'', Str []),
           (''username'', Str []), (''message'', Str [])]]"
  by (fact empty_fields_rows)

text \<open>
  C6, amended.  For every record the timestamp is the text before the first em dash (the
  whole record when it has none), trimmed and parsed with \<open>%Y-%m-%d_%H:%M:%S\<close>.  When
  that text does not parse, the record raises the error of \<open>strptime\<close> and is dropped;
  when it parses, the record is not dropped at this step: it gives a row with that
  timestamp unless the pattern fails to match.
\<close>

theorem timestamp_before_separator:
  "(strptime (strip (before_sep line)) = Inl e \<longrightarrow>
      parse_record line = Inl e
      \<and> parse_lines data (line # lines) = parse_lines data lines)
   \<and> (strptime (strip (before_sep line)) = Inr t \<longrightarrow>
      parse_record line = Inl AttributeError
      \<or> (\<exists>u c m. parse_record line =
            Inr [(''dt'', Datetime t), (''channel'', Str c), (''username'', Str u),
                 (''message'', Str m)]))"
proof (intro conjI impI)
  assume e: "strptime (strip (before_sep line)) = Inl e"
  then show "parse_record line = Inl e" by (simp add: parse_record_alt)
  from e show "parse_lines data (line # lines) = parse_lines data lines"
    by (intro dropped_record) blast
next
  assume t: "strptime (strip (before_sep line)) = Inr t"
  show "parse_record line = Inl AttributeError
      \<or> (\<exists>u c m. parse_record line =
            Inr [(''dt'', Datetime t), (''channel'', Str c), (''username'', Str u),
                 (''message'', Str m)])"
  proof (cases "search privmsg_regex (strip (after_sep line))")
    case None
    with t show ?thesis by (simp add: parse_record_alt)
  next
    case (Some m)
    from search_privmsg [OF Some] obtain u c msg where
      "snd m 1 = Some u" "snd m 2 = Some c" "snd m 3 = Some msg" by blast
    with t Some show ?thesis by (simp add: parse_record_alt group_val_def)
  qed
qed

lemma extra_token_stamp:
  "strptime (strip (before_sep extra_token_text)) = Inl ValueError"
  by (simp add: before_sep_def extra_token_text_def eval_defs)

lemma one_record_stamp:
  "strptime (strip (before_sep one_record_line)) = Inr logged_at"
  by (simp add: before_sep_def one_record_line_def eval_defs)

theorem timestamp_before_separator_witness:
  "strptime (strip (before_sep extra_token_text)) = Inl ValueError
   \<and> parse_record extra_token_text = Inl ValueError
   \<and> parse_lines [] [extra_token_text] = parse_lines [] []
   \<and> strptime (strip (before_sep one_record_line)) = Inr logged_at
   \<and> (parse_record one_record_line = Inl AttributeError
      \<or> (\<exists>u c m. parse_record one_record_line =
            Inr [(''dt'', Datetime logged_at), (''channel'', Str c), (''username'', Str u),
                 (''message'', Str m)]))"
  using timestamp_before_separator [of extra_token_text ValueError "[]" "[]"]
    timestamp_before_separator [of one_record_line _ _ _ logged_at]
    extra_token_stamp one_record_stamp
  by simp

text \<open>
  A record whose first whitespace-delimited token is a valid timestamp and which has a
  second token before the em dash is dropped.
\<close>

theorem first_token_not_used:
  "strptime (first_token extra_token_text) = Inr logged_at
   \<and> read_text extra_token_log = Inr extra_token_text
   \<and> get_chat_dataframe extra_token_log = Inr []"
  by (fact extra_token_rows)

text \<open>
  C7, amended.  The loop has no exit of its own.  When it ends, it ends with an exception
  that one of its rounds raised; it does end when some later \<open>recv\<close> raises, as it does
  on a connection error, on a socket closed locally, or on an interrupt; and when every
  \<open>recv\<close> from now on returns the empty chunk, as it does once the peer has closed the
  connection, the loop runs forever.
\<close>

theorem loop_ends_only_by_exception:
  "(receive_loop demojize e w = Some r \<longrightarrow>
      (\<exists>w0. fst (loop_body demojize e w0) = Some (fst r)
            \<and> snd (loop_body demojize e w0) = snd r))
   \<and> (recv_at e n = RecvRaises err \<and> recvs w \<le> n \<longrightarrow>
        (\<exists>r. receive_loop demojize e w = Some r))
   \<and> ((\<forall>n\<ge>recvs w. recv_at e n = Received []) \<longrightarrow> receive_loop demojize e w = None)"
proof (intro conjI impI)
  assume "receive_loop demojize e w = Some r"
  then show "\<exists>w0. fst (loop_body demojize e w0) = Some (fst r)
            \<and> snd (loop_body demojize e w0) = snd r"
    by (rule loop_ends_by_exception)
next
  assume "recv_at e n = RecvRaises err \<and> recvs w \<le> n"
  then show "\<exists>r. receive_loop demojize e w = Some r"
    using loop_terminates [of e n err w demojize] by blast
next
  assume "\<forall>n\<ge>recvs w. recv_at e n = Received []"
  then show "receive_loop demojize e w = None" by (rule loop_forever)
qed

lemma reset_run:
  "receive_loop demojize_sample reset_env world0 =
     Some (OSError, \<lparr>recvs = 3, send_calls = [], log = []\<rparr>)"
  by (simp add: receive_loop.simps loop_body_def reset_env_def world0_def startswith_def
        ascii_def)

theorem loop_ends_only_by_exception_witness:
  "receive_loop demojize_sample reset_env world0 =
     Some (OSError, \<lparr>recvs = 3, send_calls = [], log = []\<rparr>)
   \<and> (\<exists>w0. fst (loop_body demojize_sample reset_env w0) = Some OSError
           \<and> snd (loop_body demojize_sample reset_env w0) = \<lparr>recvs = 3, send_calls = [], log = []\<rparr>)
   \<and> recv_at reset_env 2 = RecvRaises OSError \<and> recvs world0 \<le> 2
   \<and> (\<exists>r. receive_loop demojize_sample reset_env world0 = Some r)
   \<and> recv_at (const_env (Received [])) (recvs world0) = Received []
   \<and> receive_loop demojize_sample (const_env (Received [])) world0 = None"
proof -
  note k = loop_ends_only_by_exception [of demojize_sample reset_env world0
      "(OSError, \<lparr>recvs = 3, send_calls = [], log = []\<rparr>)" 2 OSError]
  note k' = loop_ends_only_by_exception [of demojize_sample "const_env (Received [])" world0]
  have a: "recv_at reset_env 2 = RecvRaises OSError \<and> recvs world0 \<le> 2"
    by (simp add: reset_env_def world0_def)
  have b: "\<forall>n\<ge>recvs world0. recv_at (const_env (Received [])) n = Received []"
    by (simp add: const_env_def)
  from k [THEN conjunct1] reset_run
  have "\<exists>w0. fst (loop_body demojize_sample reset_env w0) = Some OSError
           \<and> snd (loop_body demojize_sample reset_env w0) = \<lparr>recvs = 3, send_calls = [], log = []\<rparr>"
    by simp
  moreover from k [THEN conjunct2, THEN conjunct1] a
  have "\<exists>r. receive_loop demojize_sample reset_env world0 = Some r" by (rule mp)
  moreover from k' [THEN conjunct2, THEN conjunct2] b
  have "receive_loop demojize_sample (const_env (Received [])) world0 = None" by (rule mp)
  moreover from b have "recv_at (const_env (Received [])) (recvs world0) = Received []"
    by simp
  ultimately show ?thesis using reset_run a by blast
qed

text \<open>
  The peer has closed the connection and every \<open>recv\<close> returns the empty chunk: the loop
  does not return.
\<close>

theorem closed_connection_spins:
  "receive_loop demojize_sample (const_env (Received [])) world0 = None"
  by (rule loop_forever) (simp add: const_env_def)

text \<open>
  C8.  A message body that holds an em dash is to be emitted whole.  The text after the
  first em dash of the record is kept whole by the step that splits at the em dash and
  joins the parts after the first one, and for the body \<open>a\<close>, space, em dash,
  \<open> b\<close> the row has the whole body as its message.  For the body \<open>a\<close>, space, em
  dash, \<open> b :c\<close> that step still returns the whole text, but the pattern, whose channel
  group is greedy, puts \<open>a\<close>, space, em dash, \<open> b\<close> into the channel and leaves
  \<open>c\<close> as the message, where the notebook describes the \<open>#\<close> as denoting the
  channel and the colon as saying where the message begins.
\<close>

theorem body_cut_at_colon:
  "get_chat_dataframe dash_body_log =
     Inr [[(''dt'', Datetime logged_at), (''channel'', Str (ascii ''ninja'')),
           (''username'', Str (ascii ''alice'')), (''message'', Str dash_body)]]
   \<and> read_text dash_colon_log = Inr dash_colon_line
   \<and> join [emdash] (slice_from (split_from [emdash] [] dash_colon_line) 1) =
       ascii '' :alice!alice@alice.tmi.twitch.tv PRIVMSG #ninja :a '' @ [emdash] @ ascii '' b :c''
   \<and> get_chat_dataframe dash_colon_log =
       Inr [[(''dt'', Datetime logged_at),
             (''channel'', Str (ascii ''ninja :a '' @ [emdash] @ ascii '' b'')),
             (''username'', Str (ascii ''alice'')), (''message'', Str (ascii ''c''))]]"
  using dash_body_rows dash_colon_read dash_colon_rejoin dash_colon_rows by (intro conjI)

text \<open>
  C9.  Two calls on the same file, the second from the store that the first has left,
  return the same rows and leave the file as it was: each call creates its own list for
  \<open>data\<close> and its own file object, at the start of the file, and opens the file for
  reading only.  The result of a call depends on the content of the file alone, whatever
  objects the store holds, and its rows stand in the order of the records they come from.
\<close>

theorem parse_twice_same:
  "(call_get_chat_dataframe file s = (r, s') \<and> call_get_chat_dataframe file s' = (r', s'') \<longrightarrow>
      r' = r \<and> files s'' = files s)
   \<and> (files s file = Some content \<and> files t file = Some content \<longrightarrow>
        fst (call_get_chat_dataframe file t) = fst (call_get_chat_dataframe file s)
        \<and> fst (call_get_chat_dataframe file s) = get_chat_dataframe content)
   \<and> (files s file = Some content \<and> read_text content = Inr decoded
        \<and> records decoded = earlier @ later \<longrightarrow>
        fst (call_get_chat_dataframe file s) =
          Inr (List.map_filter row_of earlier @ List.map_filter row_of later))"
proof (intro conjI impI)
  assume a: "call_get_chat_dataframe file s = (r, s') \<and> call_get_chat_dataframe file s' = (r', s'')"
  from a have s': "s' = snd (call_get_chat_dataframe file s)"
    and r: "r = fst (call_get_chat_dataframe file s)" by simp_all
  from a have s'': "s'' = snd (call_get_chat_dataframe file s')"
    and r': "r' = fst (call_get_chat_dataframe file s')" by simp_all
  have f: "files s' = files s" unfolding s' by (rule call_files)
  show "r' = r" unfolding r r' call_result f ..
  show "files s'' = files s" unfolding s'' call_files f ..
next
  assume a: "files s file = Some content \<and> files t file = Some content"
  then show "fst (call_get_chat_dataframe file t) = fst (call_get_chat_dataframe file s)"
    by (simp add: call_result)
  from a show "fst (call_get_chat_dataframe file s) = get_chat_dataframe content"
    by (simp add: call_result)
next
  assume a: "files s file = Some content \<and> read_text content = Inr decoded
        \<and> records decoded = earlier @ later"
  have "List.map_filter row_of (earlier @ later) =
          List.map_filter row_of earlier @ List.map_filter row_of later"
    by (simp add: List.map_filter_def)
  moreover from a have "read_text content = Inr decoded" by blast
  then have "get_chat_dataframe content = Inr (List.map_filter row_of (records decoded))"
    by (rule get_chat_dataframe_rows)
  ultimately show "fst (call_get_chat_dataframe file s) =
          Inr (List.map_filter row_of earlier @ List.map_filter row_of later)"
    using a by (simp add: call_result)
qed

theorem parse_twice_same_witness:
  "call_get_chat_dataframe ''chat.log'' machine0 = (Inr [one_record_row], machine1)
   \<and> call_get_chat_dataframe ''chat.log'' machine1 = (Inr [one_record_row], machine2)
   \<and> files machine2 = files machine0
   \<and> files machine0 ''chat.log'' = Some one_record_log
   \<and> files machine2 ''chat.log'' = Some one_record_log
   \<and> fst (call_get_chat_dataframe ''chat.log'' machine2) =
       fst (call_get_chat_dataframe ''chat.log'' machine0)
   \<and> fst (call_get_chat_dataframe ''chat.log'' machine0) = get_chat_dataframe one_record_log
   \<and> read_text one_record_log = Inr one_record_text
   \<and> records one_record_text = [one_record_line] @ [[]]
   \<and> fst (call_get_chat_dataframe ''chat.log'' machine0) =
       Inr (List.map_filter row_of [one_record_line] @ List.map_filter row_of [[]])"
proof -
  note k = parse_twice_same [of "''chat.log''" machine0 "Inr [one_record_row]" machine1
      "Inr [one_record_row]" machine2 one_record_log machine2 one_record_text
      "[one_record_line]" "[[]]"]
  have f0: "files machine0 ''chat.log'' = Some one_record_log" by (simp add: machine0_def)
  have f2: "files machine2 ''chat.log'' = Some one_record_log"
    by (simp add: machine0_def machine2_def)
  from k [THEN conjunct1] first_call second_call
  have "files machine2 = files machine0" by blast
  moreover from k [THEN conjunct2, THEN conjunct1] f0 f2
  have "fst (call_get_chat_dataframe ''chat.log'' machine2) =
       fst (call_get_chat_dataframe ''chat.log'' machine0)
     \<and> fst (call_get_chat_dataframe ''chat.log'' machine0) = get_chat_dataframe one_record_log"
    by blast
  moreover from k [THEN conjunct2, THEN conjunct2] f0 one_record_read one_record_records
  have "fst (call_get_chat_dataframe ''chat.log'' machine0) =
       Inr (List.map_filter row_of [one_record_line] @ List.map_filter row_of [[]])"
    by blast
  ultimately show ?thesis
    using first_call second_call f0 f2 one_record_read one_record_records by blast
qed

text \<open>
  C10.  The groups of the pattern are greedy: whenever the pattern matches, the channel
  group ends at the last space-colon of the line of the match and the message group is
  the text after it up to the end of that line, so the message never holds a space-colon.
  For the well-formed record with the channel \<open>ninja\<close> and the message
  \<open>see this :wow\<close>, the row has the channel \<open>ninja :see this\<close> and the message \<open>wow\<close>.
\<close>

theorem greedy_channel_capture:
  "(search privmsg_regex um = Some m \<longrightarrow>
      (\<exists>pre c msg post.
          um = pre @ ascii ''#'' @ c @ ascii '' :'' @ msg @ post
          \<and> snd m 2 = Some c \<and> snd m 3 = Some msg
          \<and> newline \<notin> set c \<and> newline \<notin> set msg \<and> (post = [] \<or> hd post = newline)
          \<and> (\<nexists>x y. msg = x @ ascii '' :'' @ y)))
   \<and> get_chat_dataframe colon_body_log =
       Inr [[(''dt'', Datetime logged_at), (''channel'', Str (ascii ''ninja :see this'')),
             (''username'', Str (ascii ''alice'')), (''message'', Str (ascii ''wow''))]]"
proof (intro conjI impI)
  assume "search privmsg_regex um = Some m"
  from search_privmsg [OF this] obtain pre u mid c msg post where
    f: "um = pre @ [58] @ u @ [33] @ mid @ [35] @ c @ sp_colon @ msg @ post"
      "snd m 2 = Some c" "snd m 3 = Some msg" "newline \<notin> set c" "newline \<notin> set msg"
      "post = [] \<or> hd post = newline" "\<nexists>a b. msg = a @ sp_colon @ b"
    by blast
  have "um = (pre @ [58] @ u @ [33] @ mid) @ ascii ''#'' @ c @ ascii '' :'' @ msg @ post"
    using f(1) by (simp add: ascii_def sp_colon_def)
  moreover have "\<nexists>x y. msg = x @ ascii '' :'' @ y"
    using f(7) by (simp add: ascii_def sp_colon_def)
  ultimately show "\<exists>pre c msg post.
          um = pre @ ascii ''#'' @ c @ ascii '' :'' @ msg @ post
          \<and> snd m 2 = Some c \<and> snd m 3 = Some msg
          \<and> newline \<notin> set c \<and> newline \<notin> set msg \<and> (post = [] \<or> hd post = newline)
          \<and> (\<nexists>x y. msg = x @ ascii '' :'' @ y)"
    using f(2-6) by blast
next
  show "get_chat_dataframe colon_body_log =
       Inr [[(''dt'', Datetime logged_at), (''channel'', Str (ascii ''ninja :see this'')),
             (''username'', Str (ascii ''alice'')), (''message'', Str (ascii ''wow''))]]"
    by (fact colon_body_rows)
qed

lemma colon_body_search:
  "search privmsg_regex (ascii '':alice!alice@alice.tmi.twitch.tv PRIVMSG #ninja :see this :wow'')
     = Some ([], [1 \<mapsto> ascii ''alice'', 2 \<mapsto> ascii ''ninja :see this'', 3 \<mapsto> ascii ''wow''])"
  by (simp add: eval_defs)

theorem greedy_channel_capture_witness:
  "search privmsg_regex (ascii '':alice!alice@alice.tmi.twitch.tv PRIVMSG #ninja :see this :wow'')
     = Some ([], [1 \<mapsto> ascii ''alice'', 2 \<mapsto> ascii ''ninja :see this'', 3 \<mapsto> ascii ''wow''])
   \<and> (\<exists>pre c msg post.
          ascii '':alice!alice@alice.tmi.twitch.tv PRIVMSG #ninja :see this :wow''
            = pre @ ascii ''#'' @ c @ ascii '' :'' @ msg @ post
          \<and> Some (ascii ''ninja :see this'') = Some c \<and> Some (ascii ''wow'') = Some msg
          \<and> newline \<notin> set c \<and> newline \<notin> set msg \<and> (post = [] \<or> hd post = newline)
          \<and> (\<nexists>x y. msg = x @ ascii '' :'' @ y))"
  using greedy_channel_capture
    [of "ascii '':alice!alice@alice.tmi.twitch.tv PRIVMSG #ninja :see this :wow''"
        "([], [1 \<mapsto> ascii ''alice'', 2 \<mapsto> ascii ''ninja :see this'', 3 \<mapsto> ascii ''wow''])",
     THEN conjunct1, THEN mp, OF colon_body_search]
    colon_body_search
  by simp

end
